theory Spec2Isabelle
  imports Complex_Main "HOL-Library.Multiset"
begin

section \<open>Types and constants (types.ts)\<close>

datatype GameMode = Classic | Time

datatype Phase = Menu | Playing | Gameover

text \<open>
  A \<open>Block\<close> of the source has the fields \<open>id\<close>, \<open>value\<close>, \<open>row\<close> and \<open>col\<close>
  (the optional \<open>isRemoving\<close> is never written or read). The first two names are
  taken in HOL, so they carry a suffix here.
\<close>

record Block =
  id_b :: string
  value_b :: int
  row :: nat
  col :: nat

definition GRID_ROWS :: nat where "GRID_ROWS = 10"
definition GRID_COLS :: nat where "GRID_COLS = 6"
definition INITIAL_ROWS :: nat where "INITIAL_ROWS = 4"
definition MAX_VALUE :: int where "MAX_VALUE = 9"
definition TIME_LIMIT :: int where "TIME_LIMIT = 10"

text \<open>
  The component state of \<open>App\<close>: one field for each \<open>useState\<close> cell.
  \<open>grid\<close> is a list of rows; a row lists the blocks it holds, without holes.
\<close>

record AppState =
  gameState :: Phase
  mode :: GameMode
  grid :: "Block list list"
  selectedIds :: "string list"
  target :: int
  score :: int
  level :: int
  timeLeft :: int
  isPaused :: bool
  highScore :: int

definition initialState :: AppState where
  "initialState =
     \<lparr>gameState = Menu, mode = Classic, grid = [], selectedIds = [], target = 0,
      score = 0, level = 1, timeLeft = TIME_LIMIT, isPaused = False, highScore = 0\<rparr>"

section \<open>Generators (utils.ts)\<close>

text \<open>
  \<open>Math.random()\<close> and \<open>generateId()\<close> are inputs of the model: a row draw gives, for
  each column index, the identifier and the number in \<open>[0, 1)\<close> drawn for that cell.
\<close>

type_synonym rowDraw = "nat \<Rightarrow> string \<times> real"

definition createRow :: "nat \<Rightarrow> rowDraw \<Rightarrow> Block list" where
  "createRow rowIdx rnd =
     map (\<lambda>colIdx.
            \<lparr>id_b = fst (rnd colIdx),
             value_b = \<lfloor>snd (rnd colIdx) * of_int MAX_VALUE\<rfloor> + 1,
             row = rowIdx,
             col = colIdx\<rparr>)
         [0..<GRID_COLS]"

definition generateTarget :: "GameMode \<Rightarrow> int \<Rightarrow> real \<Rightarrow> int" where
  "generateTarget m lvl u =
     (let base = 10 + \<lfloor>u * 10\<rfloor>;
          levelBonus = lvl div 2
      in base + levelBonus)"

section \<open>The game (App.tsx)\<close>

subsection \<open>Starting a game\<close>

definition startGame :: "GameMode \<Rightarrow> (nat \<Rightarrow> rowDraw) \<Rightarrow> real \<Rightarrow> AppState \<Rightarrow> AppState" where
  "startGame selectedMode rnds u s =
     (let initialGrid =
            fold (\<lambda>r g. g[r := createRow r (rnds r)])
                 [GRID_ROWS - INITIAL_ROWS..<GRID_ROWS]
                 (replicate GRID_ROWS [])
      in s\<lparr>grid := initialGrid,
            mode := selectedMode,
            target := generateTarget selectedMode 1 u,
            score := 0,
            level := 1,
            timeLeft := TIME_LIMIT,
            selectedIds := [],
            gameState := Playing,
            isPaused := False\<rparr>)"

subsection \<open>Game over\<close>

definition gameOver :: "AppState \<Rightarrow> AppState" where
  "gameOver s =
     s\<lparr>gameState := Gameover,
        highScore := (if score s > highScore s then score s else highScore s)\<rparr>"

text \<open>
  The effect that monitors the top row. \<open>grid[0]?.some(b => b)\<close> is false for a grid
  without rows and for an empty top row; a block is an object, hence truthy.
\<close>

definition gameOverEffect :: "AppState \<Rightarrow> AppState" where
  "gameOverEffect s =
     (if gameState s = Playing \<and> (case grid s of [] \<Rightarrow> False | row0 # _ \<Rightarrow> row0 \<noteq> [])
      then gameOver s else s)"

subsection \<open>Adding a row\<close>

text \<open>
  The loop of \<open>addRow\<close> over \<open>r = 0, ..., GRID_ROWS - 2\<close>. Reading \<open>newGrid[r + 1]\<close>
  beyond the end of the array gives \<open>undefined\<close>, and \<open>undefined.map\<close> throws a
  TypeError: the result \<open>None\<close>.
\<close>

fun shiftRows :: "nat list \<Rightarrow> Block list list \<Rightarrow> Block list list option" where
  "shiftRows [] newGrid = Some newGrid"
| "shiftRows (r # rs) newGrid =
     (if r + 1 < length newGrid
      then shiftRows rs (newGrid[r := map (\<lambda>b. b\<lparr>row := r\<rparr>) (newGrid ! (r + 1))])
      else None)"

definition addRowGrid :: "Block list list \<Rightarrow> rowDraw \<Rightarrow> Block list list option" where
  "addRowGrid prevGrid rnd =
     (case shiftRows [0..<GRID_ROWS - 1] prevGrid of
        None \<Rightarrow> None
      | Some newGrid \<Rightarrow> Some (newGrid[GRID_ROWS - 1 := createRow (GRID_ROWS - 1) rnd]))"

definition addRow :: "AppState \<Rightarrow> rowDraw \<Rightarrow> AppState option" where
  "addRow s rnd =
     (case addRowGrid (grid s) rnd of
        None \<Rightarrow> None
      | Some g \<Rightarrow> Some (s\<lparr>grid := g, timeLeft := TIME_LIMIT\<rparr>))"

subsection \<open>Selection\<close>

definition toggleBlock :: "AppState \<Rightarrow> Block \<Rightarrow> AppState" where
  "toggleBlock s block =
     (if gameState s \<noteq> Playing \<or> isPaused s then s
      else s\<lparr>selectedIds :=
               (if id_b block \<in> set (selectedIds s)
                then filter (\<lambda>i. i \<noteq> id_b block) (selectedIds s)
                else selectedIds s @ [id_b block])\<rparr>)"

definition currentSum :: "Block list list \<Rightarrow> string list \<Rightarrow> int" where
  "currentSum g sel =
     fold (\<lambda>block sum. if id_b block \<in> set sel then sum + value_b block else sum)
          (concat g) 0"

subsection \<open>Clearing the selected blocks and gravity\<close>

text \<open>
  \<open>columns[block.col].push(block)\<close> for every block of the flattened grid, in order.
  A column index outside \<open>columns\<close> reads \<open>undefined\<close> and the call throws.
\<close>

fun fillColumns :: "Block list \<Rightarrow> Block list list \<Rightarrow> Block list list option" where
  "fillColumns [] columns = Some columns"
| "fillColumns (block # rest) columns =
     (if col block < length columns
      then fillColumns rest (columns[col block := columns ! col block @ [block]])
      else None)"

text \<open>
  A row of \<open>finalGrid\<close> is a sparse array, written by index: a map from column index to
  block. \<open>placeColumn\<close> is the inner \<open>forEach\<close> over the sorted blocks of one column,
  with the running index \<open>i\<close>; for \<open>i \<ge> GRID_ROWS\<close> the row index \<open>GRID_ROWS - 1 - i\<close>
  is negative, \<open>finalGrid[newRow]\<close> is \<open>undefined\<close> and the assignment throws.
\<close>

type_synonym sparseRow = "nat \<rightharpoonup> Block"

fun placeColumn :: "nat \<Rightarrow> Block list \<Rightarrow> nat \<Rightarrow> sparseRow list \<Rightarrow> sparseRow list option" where
  "placeColumn colIdx [] i finalGrid = Some finalGrid"
| "placeColumn colIdx (block # rest) i finalGrid =
     (if i < GRID_ROWS
      then (let newRow = GRID_ROWS - 1 - i
            in placeColumn colIdx rest (Suc i)
                 (finalGrid[newRow :=
                    (finalGrid ! newRow)(colIdx \<mapsto> block\<lparr>row := newRow, col := colIdx\<rparr>)]))
      else None)"

text \<open>
  The outer \<open>columns.forEach\<close>. The comparator \<open>b.row - a.row\<close> orders by descending
  row; \<open>Array.prototype.sort\<close> is stable, as is \<open>sort_key\<close>.
\<close>

fun placeColumns :: "Block list list \<Rightarrow> nat \<Rightarrow> sparseRow list \<Rightarrow> sparseRow list option" where
  "placeColumns [] colIdx finalGrid = Some finalGrid"
| "placeColumns (colBlocks # rest) colIdx finalGrid =
     (case placeColumn colIdx (sort_key (\<lambda>b. - int (row b)) colBlocks) 0 finalGrid of
        None \<Rightarrow> None
      | Some finalGrid' \<Rightarrow> placeColumns rest (Suc colIdx) finalGrid')"

text \<open>
  \<open>row.filter(b => b)\<close> visits the indices of the sparse row in ascending order and
  skips the holes; the indices written are column indices, below \<open>GRID_COLS\<close>.
\<close>

definition compactRow :: "sparseRow \<Rightarrow> Block list" where
  "compactRow r = List.map_filter r [0..<GRID_COLS]"

definition clearAndGravity :: "Block list list \<Rightarrow> string list \<Rightarrow> Block list list option" where
  "clearAndGravity prevGrid sel =
     (let newGrid = map (filter (\<lambda>block. id_b block \<notin> set sel)) prevGrid
      in case fillColumns (concat newGrid) (replicate GRID_COLS []) of
           None \<Rightarrow> None
         | Some columns \<Rightarrow>
             (case placeColumns columns 0 (replicate GRID_ROWS Map.empty) of
                None \<Rightarrow> None
              | Some finalGrid \<Rightarrow> Some (map compactRow finalGrid)))"

subsection \<open>The effect that checks the sum\<close>

text \<open>
  The effect reads \<open>currentSum\<close>, \<open>target\<close>, \<open>selectedIds\<close>, \<open>mode\<close>, \<open>level\<close> and
  \<open>score\<close> of the render it belongs to and queues its updates; the two updates of the
  grid (clearing with gravity, then \<open>addRow\<close> in classic mode) are applied in order.
  \<open>u\<close> is the draw of \<open>generateTarget\<close>, \<open>rnd\<close> the draw of the new row.
\<close>

definition checkSumEffect :: "AppState \<Rightarrow> real \<Rightarrow> rowDraw \<Rightarrow> AppState option" where
  "checkSumEffect s u rnd =
     (if currentSum (grid s) (selectedIds s) = target s \<and> target s > 0
      then (let clearedCount = int (length (selectedIds s))
            in case clearAndGravity (grid s) (selectedIds s) of
                 None \<Rightarrow> None
               | Some g1 \<Rightarrow>
                   (case (if mode s = Classic then addRowGrid g1 rnd else Some g1) of
                      None \<Rightarrow> None
                    | Some g2 \<Rightarrow>
                        Some (s\<lparr>score := score s + target s * clearedCount,
                                grid := g2,
                                selectedIds := [],
                                target := generateTarget (mode s) (level s) u,
                                timeLeft := TIME_LIMIT,
                                level := (if score s > level s * 500
                                          then level s + 1 else level s)\<rparr>)))
      else if currentSum (grid s) (selectedIds s) > target s
      then Some (s\<lparr>selectedIds := []\<rparr>)
      else Some s)"

subsection \<open>The timer of time mode\<close>

text \<open>
  One firing of the interval, which exists only while the game is playing in time mode
  and is not paused. The updater passed to \<open>setTimeLeft\<close> calls \<open>addRow\<close> itself; it
  is run once for a firing.
\<close>

definition tick :: "AppState \<Rightarrow> rowDraw \<Rightarrow> AppState option" where
  "tick s rnd =
     (if gameState s = Playing \<and> mode s = Time \<and> \<not> isPaused s
      then (if timeLeft s \<le> 1
            then (case addRow s rnd of
                    None \<Rightarrow> None
                  | Some s' \<Rightarrow> Some (s'\<lparr>timeLeft := TIME_LIMIT\<rparr>))
            else Some (s\<lparr>timeLeft := timeLeft s - 1\<rparr>))
      else Some s)"

subsection \<open>Events and the effects that follow them\<close>

text \<open>
  The handlers of the buttons are written inline in the source:
  \<open>setIsPaused(!isPaused)\<close>, \<open>setIsPaused(false)\<close> and \<open>setGameState('menu')\<close>.
\<close>

datatype Event =
    StartGame GameMode "nat \<Rightarrow> rowDraw" real
  | ToggleBlock Block
  | Tick rowDraw
  | SetPaused bool
  | ReturnToMenu

fun handle :: "AppState \<Rightarrow> Event \<Rightarrow> AppState option" where
  "handle s (StartGame m rnds u) = Some (startGame m rnds u s)"
| "handle s (ToggleBlock block) = Some (toggleBlock s block)"
| "handle s (Tick rnd) = tick s rnd"
| "handle s (SetPaused p) = Some (s\<lparr>isPaused := p\<rparr>)"
| "handle s ReturnToMenu = Some (s\<lparr>gameState := Menu\<rparr>)"

text \<open>
  After the render that follows an event the effects run on the state of that render:
  the game-over effect writes \<open>gameState\<close> and \<open>highScore\<close>, the sum effect the other
  cells, and it reads neither of the two. Their updates cause a second render, whose
  game-over effect sees the new grid. The sum effect of the second render changes
  nothing, and neither does a third render (\<open>effects_at_rest\<close> below).
\<close>

definition effects :: "AppState \<Rightarrow> real \<Rightarrow> rowDraw \<Rightarrow> AppState option" where
  "effects s u rnd =
     (case checkSumEffect (gameOverEffect s) u rnd of
        None \<Rightarrow> None
      | Some s1 \<Rightarrow> Some (gameOverEffect s1))"

definition step :: "AppState \<Rightarrow> Event \<Rightarrow> real \<Rightarrow> rowDraw \<Rightarrow> AppState option" where
  "step s ev u rnd =
     (case handle s ev of
        None \<Rightarrow> None
      | Some s1 \<Rightarrow> effects s1 u rnd)"

text \<open>
  The interface offers only the blocks of the grid it shows for toggling; the other
  events are always possible.
\<close>

fun enabled :: "AppState \<Rightarrow> Event \<Rightarrow> bool" where
  "enabled s (ToggleBlock block) = (block \<in> set (concat (grid s)))"
| "enabled s _ = True"

inductive reachable :: "AppState \<Rightarrow> bool" where
  reachable_init: "reachable initialState"
| reachable_step:
    "reachable s \<Longrightarrow> enabled s ev \<Longrightarrow> step s ev u rnd = Some s' \<Longrightarrow> reachable s'"

section \<open>Properties of grids\<close>

text \<open>
  The structure every grid of the game has: \<open>GRID_ROWS\<close> rows, each block stored in
  the row its \<open>row\<close> field names, in a column below \<open>GRID_COLS\<close>, and no two blocks
  of a row in the same column.
\<close>

definition rowOk :: "nat \<Rightarrow> Block list \<Rightarrow> bool" where
  "rowOk r bs \<longleftrightarrow> (\<forall>b\<in>set bs. row b = r \<and> col b < GRID_COLS) \<and> distinct (map col bs)"

definition gridOk :: "Block list list \<Rightarrow> bool" where
  "gridOk g \<longleftrightarrow> length g = GRID_ROWS \<and> (\<forall>r\<in>{0..<GRID_ROWS}. rowOk r (g ! r))"

definition noSharedPosition :: "Block list list \<Rightarrow> bool" where
  "noSharedPosition g \<longleftrightarrow> distinct (map (\<lambda>b. (row b, col b)) (concat g))"

definition valuesInRange :: "Block list list \<Rightarrow> bool" where
  "valuesInRange g \<longleftrightarrow> (\<forall>b\<in>set (concat g). 1 \<le> value_b b \<and> value_b b \<le> MAX_VALUE)"

text \<open>
  The top row as the game-over effect sees it, and the selection naming blocks of the
  grid only.
\<close>

definition topRowEmpty :: "Block list list \<Rightarrow> bool" where
  "topRowEmpty g \<longleftrightarrow> (case g of [] \<Rightarrow> True | row0 # _ \<Rightarrow> row0 = [])"

definition selectionInGrid :: "AppState \<Rightarrow> bool" where
  "selectionInGrid s \<longleftrightarrow> set (selectedIds s) \<subseteq> id_b ` set (concat (grid s))"

text \<open>A draw of \<open>Math.random()\<close> lies in \<open>[0, 1)\<close>.\<close>

definition drawOk :: "rowDraw \<Rightarrow> bool" where
  "drawOk rnd \<longleftrightarrow> (\<forall>c\<in>{0..<GRID_COLS}. 0 \<le> snd (rnd c) \<and> snd (rnd c) < 1)"

text \<open>Settled: every block above the bottom row has a block right below it.\<close>

definition settled :: "Block list list \<Rightarrow> bool" where
  "settled g \<longleftrightarrow>
     (\<forall>b\<in>set (concat g). row b + 1 < GRID_ROWS \<longrightarrow>
        (\<exists>b'\<in>set (concat g). col b' = col b \<and> row b' = row b + 1))"

text \<open>What gravity leaves of a block: identity, value and column.\<close>

definition tileOf :: "Block \<Rightarrow> string \<times> int \<times> nat" where
  "tileOf b = (id_b b, value_b b, col b)"

subsection \<open>The result of gravity in closed form\<close>

definition unselected :: "Block list list \<Rightarrow> string list \<Rightarrow> Block list" where
  "unselected g sel = filter (\<lambda>block. id_b block \<notin> set sel) (concat g)"

definition settledColumn :: "Block list list \<Rightarrow> string list \<Rightarrow> nat \<Rightarrow> Block list" where
  "settledColumn g sel c =
     sort_key (\<lambda>b. - int (row b)) (filter (\<lambda>b. col b = c) (unselected g sel))"

definition gravityCell :: "Block list list \<Rightarrow> string list \<Rightarrow> nat \<Rightarrow> nat \<Rightarrow> Block option" where
  "gravityCell g sel r c =
     (if GRID_ROWS - 1 - r < length (settledColumn g sel c)
      then Some ((settledColumn g sel c ! (GRID_ROWS - 1 - r))\<lparr>row := r, col := c\<rparr>)
      else None)"

definition gravityRow :: "Block list list \<Rightarrow> string list \<Rightarrow> nat \<Rightarrow> Block list" where
  "gravityRow g sel r = List.map_filter (gravityCell g sel r) [0..<GRID_COLS]"

definition gravityOk :: "Block list list \<Rightarrow> string list \<Rightarrow> bool" where
  "gravityOk g sel \<longleftrightarrow>
     (\<forall>b\<in>set (unselected g sel). col b < GRID_COLS) \<and>
     (\<forall>c\<in>{0..<GRID_COLS}. length (settledColumn g sel c) \<le> GRID_ROWS)"

section \<open>An example position\<close>

text \<open>
  A grid with three occupied columns, used to run the operations on concrete input.
  The blocks \<open>a\<close> and \<open>d\<close> have the values 3 and 7.
\<close>

definition exGrid :: "Block list list" where
  "exGrid =
     [[], [], [], [], [], [],
      [\<lparr>id_b = ''a'', value_b = 3, row = 6, col = 0\<rparr>],
      [\<lparr>id_b = ''b'', value_b = 5, row = 7, col = 0\<rparr>,
       \<lparr>id_b = ''c'', value_b = 7, row = 7, col = 2\<rparr>],
      [\<lparr>id_b = ''d'', value_b = 7, row = 8, col = 0\<rparr>,
       \<lparr>id_b = ''e'', value_b = 1, row = 8, col = 2\<rparr>],
      [\<lparr>id_b = ''f'', value_b = 2, row = 9, col = 0\<rparr>,
       \<lparr>id_b = ''g'', value_b = 9, row = 9, col = 2\<rparr>,
       \<lparr>id_b = ''h'', value_b = 4, row = 9, col = 5\<rparr>]]"

definition exState :: "GameMode \<Rightarrow> string list \<Rightarrow> AppState" where
  "exState m sel =
     \<lparr>gameState = Playing, mode = m, grid = exGrid, selectedIds = sel, target = 10,
      score = 490, level = 1, timeLeft = 4, isPaused = False, highScore = 0\<rparr>"

definition exDraw :: rowDraw where
  "exDraw c = (replicate (Suc c) CHR ''n'', 1 / 2)"

text \<open>The same position with a block in row 1, one step from the top.\<close>

definition exTall :: AppState where
  "exTall =
     (exState Time [])
       \<lparr>grid := exGrid[1 := [\<lparr>id_b = ''t'', value_b = 1, row = 1, col = 3\<rparr>]], timeLeft := 1\<rparr>"

text \<open>
  A game from its start: the draws of the initial rows, the state after \<open>startGame\<close>,
  and the state after the player has then chosen the block in the bottom right corner.
\<close>

definition exDraws :: "nat \<Rightarrow> rowDraw" where
  "exDraws r c = (replicate (Suc r) CHR ''r'' @ replicate (Suc c) CHR ''c'', (1 + real c) / 10)"

definition exStart :: AppState where
  "exStart = startGame Time exDraws (1 / 2) initialState"

definition exCorner :: Block where
  "exCorner = \<lparr>id_b = ''rrrrrrrrrrcccccc'', value_b = 6, row = 9, col = 5\<rparr>"

definition exPlay :: AppState where
  "exPlay = toggleBlock exStart exCorner"

section \<open>The loops in closed form\<close>

subsection \<open>Shifting the rows\<close>

lemma shiftRows_upt:
  "n < length g \<Longrightarrow> i \<le> n \<Longrightarrow>
   shiftRows [i..<n] g =
     Some (map (\<lambda>r. if i \<le> r \<and> r < n then map (\<lambda>b. b\<lparr>row := r\<rparr>) (g ! (r + 1)) else g ! r)
               [0..<length g])"
proof (induction "n - i" arbitrary: i g)
  case 0
  then show ?case by (auto intro!: nth_equalityI)
next
  case (Suc k)
  then have lt: "i < n" and k: "k = n - Suc i" by simp_all
  let ?g1 = "g[i := map (\<lambda>b. b\<lparr>row := i\<rparr>) (g ! (i + 1))]"
  have "shiftRows [i..<n] g = shiftRows [Suc i..<n] ?g1"
    using lt Suc.prems by (simp add: upt_conv_Cons)
  also have "\<dots> = Some (map (\<lambda>r. if Suc i \<le> r \<and> r < n
                                   then map (\<lambda>b. b\<lparr>row := r\<rparr>) (?g1 ! (r + 1)) else ?g1 ! r)
                             [0..<length ?g1])"
    using Suc.hyps(1)[OF k, of ?g1] lt Suc.prems by simp
  also have "\<dots> = Some (map (\<lambda>r. if i \<le> r \<and> r < n
                                   then map (\<lambda>b. b\<lparr>row := r\<rparr>) (g ! (r + 1)) else g ! r)
                             [0..<length g])"
    using lt Suc.prems by (auto simp: nth_list_update)
  finally show ?case .
qed

lemma shiftRows_short:
  "length g \<le> n \<Longrightarrow> i < n \<Longrightarrow> shiftRows [i..<n] g = None"
proof (induction "n - i" arbitrary: i g)
  case 0
  then show ?case by simp
next
  case (Suc k)
  then have k: "k = n - Suc i" by simp
  show ?case
  proof (cases "Suc i < n")
    case True
    then show ?thesis
      using Suc.hyps(1)[OF k, of "g[i := map (\<lambda>b. b\<lparr>row := i\<rparr>) (g ! (i + 1))]"] Suc.prems
      by (simp add: upt_conv_Cons)
  next
    case False
    then have "n = Suc i" using Suc.prems by simp
    then show ?thesis using Suc.prems by (simp add: upt_conv_Cons)
  qed
qed

lemma addRowGrid_Some:
  assumes "GRID_ROWS \<le> length g"
  shows "addRowGrid g rnd =
           Some (map (\<lambda>r. map (\<lambda>b. b\<lparr>row := r\<rparr>) (g ! Suc r)) [0..<GRID_ROWS - 1]
                 @ createRow (GRID_ROWS - 1) rnd # drop GRID_ROWS g)"
proof -
  have pos: "0 < GRID_ROWS" by (simp add: GRID_ROWS_def)
  let ?sh = "map (\<lambda>r. if 0 \<le> r \<and> r < GRID_ROWS - 1 then map (\<lambda>b. b\<lparr>row := r\<rparr>) (g ! (r + 1)) else g ! r)
                 [0..<length g]"
  have sh: "shiftRows [0..<GRID_ROWS - 1] g = Some ?sh"
    using assms pos by (intro shiftRows_upt) simp_all
  have "?sh[GRID_ROWS - 1 := createRow (GRID_ROWS - 1) rnd] =
          map (\<lambda>r. map (\<lambda>b. b\<lparr>row := r\<rparr>) (g ! Suc r)) [0..<GRID_ROWS - 1]
          @ createRow (GRID_ROWS - 1) rnd # drop GRID_ROWS g"
    using assms pos
    by (intro nth_equalityI) (auto simp: nth_list_update nth_append nth_Cons' less_diff_conv)
  with sh show ?thesis by (simp add: addRowGrid_def)
qed

lemma addRowGrid_None:
  "length g < GRID_ROWS \<Longrightarrow> addRowGrid g rnd = None"
  using shiftRows_short[of g "GRID_ROWS - 1" 0]
  by (cases "GRID_ROWS - 1 = 0") (auto simp: addRowGrid_def GRID_ROWS_def)

subsection \<open>Filling and placing the columns\<close>

lemma fillColumns_eq:
  "fillColumns bs cols =
     (if \<forall>b\<in>set bs. col b < length cols
      then Some (map (\<lambda>c. cols ! c @ filter (\<lambda>b. col b = c) bs) [0..<length cols])
      else None)"
proof (induction bs arbitrary: cols)
  case Nil
  show ?case by (auto intro!: nth_equalityI)
next
  case (Cons b bs)
  show ?case
  proof (cases "col b < length cols")
    case True
    have "map (\<lambda>c. cols[col b := cols ! col b @ [b]] ! c @ filter (\<lambda>b. col b = c) bs) [0..<length cols]
          = map (\<lambda>c. cols ! c @ filter (\<lambda>b. col b = c) (b # bs)) [0..<length cols]"
      using True by (auto simp: nth_list_update)
    with True show ?thesis by (simp add: Cons.IH)
  next
    case False
    then show ?thesis by auto
  qed
qed

lemma placeColumn_Some:
  "length fg = GRID_ROWS \<Longrightarrow> i + length bs \<le> GRID_ROWS \<Longrightarrow>
   placeColumn c bs i fg =
     Some (map (\<lambda>r. if i \<le> GRID_ROWS - 1 - r \<and> GRID_ROWS - 1 - r < i + length bs
                     then (fg ! r)(c \<mapsto> (bs ! (GRID_ROWS - 1 - r - i))\<lparr>row := r, col := c\<rparr>)
                     else fg ! r)
               [0..<GRID_ROWS])"
proof (induction bs arbitrary: i fg)
  case Nil
  then show ?case by (auto intro!: nth_equalityI)
next
  case (Cons b bs)
  let ?n = "GRID_ROWS - 1 - i"
  let ?fg1 = "fg[?n := (fg ! ?n)(c \<mapsto> b\<lparr>row := ?n, col := c\<rparr>)]"
  from Cons.prems have i: "i < GRID_ROWS" by simp
  have "placeColumn c (b # bs) i fg = placeColumn c bs (Suc i) ?fg1"
    using i by (simp add: Let_def)
  also have "\<dots> =
     Some (map (\<lambda>r. if Suc i \<le> GRID_ROWS - 1 - r \<and> GRID_ROWS - 1 - r < Suc i + length bs
                     then (?fg1 ! r)(c \<mapsto> (bs ! (GRID_ROWS - 1 - r - Suc i))\<lparr>row := r, col := c\<rparr>)
                     else ?fg1 ! r)
               [0..<GRID_ROWS])"
    using Cons.prems by (intro Cons.IH) simp_all
  also have "\<dots> =
     Some (map (\<lambda>r. if i \<le> GRID_ROWS - 1 - r \<and> GRID_ROWS - 1 - r < i + length (b # bs)
                     then (fg ! r)(c \<mapsto> ((b # bs) ! (GRID_ROWS - 1 - r - i))\<lparr>row := r, col := c\<rparr>)
                     else fg ! r)
               [0..<GRID_ROWS])"
  proof -
    have "(if Suc i \<le> GRID_ROWS - 1 - r \<and> GRID_ROWS - 1 - r < Suc i + length bs
           then (?fg1 ! r)(c \<mapsto> (bs ! (GRID_ROWS - 1 - r - Suc i))\<lparr>row := r, col := c\<rparr>)
           else ?fg1 ! r) =
          (if i \<le> GRID_ROWS - 1 - r \<and> GRID_ROWS - 1 - r < i + length (b # bs)
           then (fg ! r)(c \<mapsto> ((b # bs) ! (GRID_ROWS - 1 - r - i))\<lparr>row := r, col := c\<rparr>)
           else fg ! r)" if "r < GRID_ROWS" for r
    proof (cases "r = ?n")
      case True
      then show ?thesis using i Cons.prems by simp
    next
      case False
      then have ne: "GRID_ROWS - 1 - r \<noteq> i" using that i by arith
      show ?thesis
      proof (cases "i \<le> GRID_ROWS - 1 - r")
        case True
        with ne have "Suc i \<le> GRID_ROWS - 1 - r" by simp
        then have "GRID_ROWS - 1 - r - i = Suc (GRID_ROWS - 1 - r - Suc i)" by simp
        then show ?thesis using False True ne by auto
      next
        case False
        then show ?thesis using \<open>r \<noteq> ?n\<close> by auto
      qed
    qed
    then show ?thesis by simp
  qed
  finally show ?case .
qed

lemma placeColumn_None:
  "bs \<noteq> [] \<Longrightarrow> GRID_ROWS < i + length bs \<Longrightarrow> placeColumn c bs i fg = None"
proof (induction bs arbitrary: i fg)
  case Nil
  then show ?case by simp
next
  case (Cons b bs)
  show ?case
  proof (cases "i < GRID_ROWS")
    case True
    with Cons.prems have "bs \<noteq> []" by auto
    with Cons True show ?thesis by (simp add: Let_def)
  next
    case False
    then show ?thesis by simp
  qed
qed

lemma placeColumn_length:
  "placeColumn c bs i fg = Some fg' \<Longrightarrow> length fg' = length fg"
  by (induction bs arbitrary: i fg) (auto simp: Let_def split: if_splits)

lemma placeColumns_Some:
  "length fg = GRID_ROWS \<Longrightarrow> \<forall>cb\<in>set cbs. length cb \<le> GRID_ROWS \<Longrightarrow>
   placeColumns cbs c0 fg =
     Some (map (\<lambda>r c. if c0 \<le> c \<and> c < c0 + length cbs
                          \<and> GRID_ROWS - 1 - r < length (cbs ! (c - c0))
                       then Some ((sort_key (\<lambda>b. - int (row b)) (cbs ! (c - c0)) ! (GRID_ROWS - 1 - r))
                                   \<lparr>row := r, col := c\<rparr>)
                       else (fg ! r) c)
               [0..<GRID_ROWS])"
proof (induction cbs arbitrary: c0 fg)
  case Nil
  have "\<not> (c0 \<le> c \<and> c < c0 + length ([] :: Block list list) \<and> P c)" for c P
    by simp
  then show ?case using Nil by (auto intro!: nth_equalityI ext)
next
  case (Cons cb cbs)
  let ?s = "sort_key (\<lambda>b. - int (row b)) cb"
  let ?fg1 = "map (\<lambda>r. if 0 \<le> GRID_ROWS - 1 - r \<and> GRID_ROWS - 1 - r < 0 + length ?s
                     then (fg ! r)(c0 \<mapsto> (?s ! (GRID_ROWS - 1 - r - 0))\<lparr>row := r, col := c0\<rparr>)
                     else fg ! r)
               [0..<GRID_ROWS]"
  have 1: "placeColumn c0 ?s 0 fg = Some ?fg1"
    using Cons.prems by (intro placeColumn_Some) simp_all
  have 2: "placeColumns cbs (Suc c0) ?fg1 =
     Some (map (\<lambda>r c. if Suc c0 \<le> c \<and> c < Suc c0 + length cbs
                          \<and> GRID_ROWS - 1 - r < length (cbs ! (c - Suc c0))
                       then Some ((sort_key (\<lambda>b. - int (row b)) (cbs ! (c - Suc c0)) ! (GRID_ROWS - 1 - r))
                                   \<lparr>row := r, col := c\<rparr>)
                       else (?fg1 ! r) c)
               [0..<GRID_ROWS])"
    using Cons.prems by (intro Cons.IH) simp_all
  have 3: "(if Suc c0 \<le> c \<and> c < Suc c0 + length cbs
                          \<and> GRID_ROWS - 1 - r < length (cbs ! (c - Suc c0))
                       then Some ((sort_key (\<lambda>b. - int (row b)) (cbs ! (c - Suc c0)) ! (GRID_ROWS - 1 - r))
                                   \<lparr>row := r, col := c\<rparr>)
                       else (?fg1 ! r) c) =
           (if c0 \<le> c \<and> c < c0 + length (cb # cbs)
                          \<and> GRID_ROWS - 1 - r < length ((cb # cbs) ! (c - c0))
                       then Some ((sort_key (\<lambda>b. - int (row b)) ((cb # cbs) ! (c - c0)) ! (GRID_ROWS - 1 - r))
                                   \<lparr>row := r, col := c\<rparr>)
                       else (fg ! r) c)" if "r < GRID_ROWS" for r c
  proof (cases "c = c0")
    case True
    then show ?thesis using that by simp
  next
    case False
    show ?thesis
    proof (cases "c0 \<le> c")
      case True
      with False have "Suc c0 \<le> c" by simp
      then have "c - c0 = Suc (c - Suc c0)" by simp
      then show ?thesis using that False True by auto
    next
      case False
      then show ?thesis using that by auto
    qed
  qed
  show ?case
    unfolding placeColumns.simps 1 option.case 2 using 3 by (auto intro!: ext)
qed


lemma placeColumns_None:
  "length fg = GRID_ROWS \<Longrightarrow> \<exists>cb\<in>set cbs. GRID_ROWS < length cb \<Longrightarrow>
   placeColumns cbs c0 fg = None"
proof (induction cbs arbitrary: c0 fg)
  case Nil
  then show ?case by simp
next
  case (Cons cb cbs)
  let ?s = "sort_key (\<lambda>b. - int (row b)) cb"
  show ?case
  proof (cases "GRID_ROWS < length cb")
    case True
    then have "?s \<noteq> []" by (metis length_sort list.size(3) not_less_zero)
    then have "placeColumn c0 ?s 0 fg = None"
      using True by (intro placeColumn_None) simp_all
    then show ?thesis by simp
  next
    case False
    with Cons.prems have ex: "\<exists>cb\<in>set cbs. GRID_ROWS < length cb" by auto
    show ?thesis
    proof (cases "placeColumn c0 ?s 0 fg")
      case None
      then show ?thesis by simp
    next
      case (Some fg1)
      then have "length fg1 = GRID_ROWS"
        using placeColumn_length Cons.prems(1) by metis
      then show ?thesis using Some Cons.IH ex by simp
    qed
  qed
qed

lemma map_filter_cong_set:
  "(\<And>x. x \<in> set xs \<Longrightarrow> f x = h x) \<Longrightarrow> List.map_filter f xs = List.map_filter h xs"
proof (induction xs)
  case Nil
  show ?case by (simp add: map_filter_simps)
next
  case (Cons a xs)
  have "List.map_filter f xs = List.map_filter h xs" "f a = h a"
    using Cons by simp_all
  then show ?case by (simp add: map_filter_simps split: option.split)
qed

lemma clearAndGravity_eq:
  "clearAndGravity g sel =
     (if gravityOk g sel then Some (map (gravityRow g sel) [0..<GRID_ROWS]) else None)"
proof -
  let ?U = "unselected g sel"
  let ?cols = "map (\<lambda>c. filter (\<lambda>b. col b = c) ?U) [0..<GRID_COLS]"
  have U: "concat (map (filter (\<lambda>block. id_b block \<notin> set sel)) g) = ?U"
    by (simp add: unselected_def filter_concat)
  have fc: "fillColumns ?U (replicate GRID_COLS []) =
              (if \<forall>b\<in>set ?U. col b < GRID_COLS then Some ?cols else None)"
    by (simp add: fillColumns_eq cong: map_cong)
  show ?thesis
  proof (cases "\<forall>b\<in>set ?U. col b < GRID_COLS")
    case False
    then have "fillColumns ?U (replicate GRID_COLS []) = None" "\<not> gravityOk g sel"
      using fc by (simp_all add: gravityOk_def)
    then show ?thesis by (simp add: clearAndGravity_def U)
  next
    case cols: True
    then have fc': "fillColumns ?U (replicate GRID_COLS []) = Some ?cols"
      using fc by simp
    show ?thesis
    proof (cases "\<forall>c\<in>{0..<GRID_COLS}. length (settledColumn g sel c) \<le> GRID_ROWS")
      case False
      then obtain c where c: "c < GRID_COLS" "GRID_ROWS < length (settledColumn g sel c)"
        by (auto simp: not_le)
      then have "\<exists>cb\<in>set ?cols. GRID_ROWS < length cb"
        by (auto simp: settledColumn_def intro!: bexI[of _ c])
      then have "placeColumns ?cols 0 (replicate GRID_ROWS Map.empty) = None"
        by (intro placeColumns_None) simp_all
      moreover have "\<not> gravityOk g sel" using False by (simp add: gravityOk_def)
      ultimately show ?thesis
        by (simp add: clearAndGravity_def U fc')
    next
      case lens: True
      then have "\<forall>cb\<in>set ?cols. length cb \<le> GRID_ROWS"
        by (auto simp: settledColumn_def)
      then have pc: "placeColumns ?cols 0 (replicate GRID_ROWS Map.empty) =
         Some (map (\<lambda>r c. if 0 \<le> c \<and> c < 0 + length ?cols
                          \<and> GRID_ROWS - 1 - r < length (?cols ! (c - 0))
                       then Some ((sort_key (\<lambda>b. - int (row b)) (?cols ! (c - 0)) ! (GRID_ROWS - 1 - r))
                                   \<lparr>row := r, col := c\<rparr>)
                       else (replicate GRID_ROWS Map.empty ! r) c)
               [0..<GRID_ROWS])"
        by (intro placeColumns_Some) simp_all
      have "compactRow (\<lambda>c. if 0 \<le> c \<and> c < 0 + length ?cols
                          \<and> GRID_ROWS - 1 - r < length (?cols ! (c - 0))
                       then Some ((sort_key (\<lambda>b. - int (row b)) (?cols ! (c - 0)) ! (GRID_ROWS - 1 - r))
                                   \<lparr>row := r, col := c\<rparr>)
                       else (replicate GRID_ROWS Map.empty ! r) c) = gravityRow g sel r"
        if "r < GRID_ROWS" for r
        unfolding compactRow_def gravityRow_def
        using that
        by (intro map_filter_cong_set) (auto simp: gravityCell_def settledColumn_def)
      moreover have "gravityOk g sel" using cols lens by (simp add: gravityOk_def)
      ultimately show ?thesis
        by (simp add: clearAndGravity_def U fc' pc)
    qed
  qed
qed

section \<open>The grid after gravity\<close>

lemma set_unselected:
  "set (unselected g sel) = {b \<in> set (concat g). id_b b \<notin> set sel}"
  by (auto simp: unselected_def)

lemma set_settledColumn:
  "set (settledColumn g sel c) = {b \<in> set (unselected g sel). col b = c}"
  by (auto simp: settledColumn_def)

lemma mset_settledColumn:
  "mset (settledColumn g sel c) = mset (filter (\<lambda>b. col b = c) (unselected g sel))"
  by (simp add: settledColumn_def)

lemma sorted_settledColumn:
  "sorted (map (\<lambda>b. - int (row b)) (settledColumn g sel c))"
  by (simp add: settledColumn_def)

lemma settledColumn_nth:
  assumes "i < length (settledColumn g sel c)"
  shows "settledColumn g sel c ! i \<in> set (concat g)"
    and "id_b (settledColumn g sel c ! i) \<notin> set sel"
    and "col (settledColumn g sel c ! i) = c"
proof -
  have "settledColumn g sel c ! i \<in> set (settledColumn g sel c)"
    using assms by simp
  then show "settledColumn g sel c ! i \<in> set (concat g)"
    and "id_b (settledColumn g sel c ! i) \<notin> set sel"
    and "col (settledColumn g sel c ! i) = c"
    by (simp_all add: set_settledColumn set_unselected)
qed

lemma gravityCell_SomeD:
  assumes "gravityCell g sel r c = Some b'"
  shows "GRID_ROWS - 1 - r < length (settledColumn g sel c)"
    and "b' = (settledColumn g sel c ! (GRID_ROWS - 1 - r))\<lparr>row := r\<rparr>"
    and "row b' = r" and "col b' = c"
proof -
  show len: "GRID_ROWS - 1 - r < length (settledColumn g sel c)"
    using assms by (simp add: gravityCell_def split: if_splits)
  have b': "b' = (settledColumn g sel c ! (GRID_ROWS - 1 - r))\<lparr>row := r, col := c\<rparr>"
    using assms by (simp add: gravityCell_def split: if_splits)
  then show "row b' = r" and "col b' = c" by simp_all
  have "col (settledColumn g sel c ! (GRID_ROWS - 1 - r)) = c"
    using len by (rule settledColumn_nth)
  with b' show "b' = (settledColumn g sel c ! (GRID_ROWS - 1 - r))\<lparr>row := r\<rparr>"
    by simp
qed

lemma set_map_filter_eq:
  "set (List.map_filter f xs) = {y. \<exists>x\<in>set xs. f x = Some y}"
  by (induction xs) (auto simp: map_filter_simps split: option.splits)

lemma set_gravityRow:
  "set (gravityRow g sel r) = {b'. \<exists>c<GRID_COLS. gravityCell g sel r c = Some b'}"
  by (auto simp: gravityRow_def set_map_filter_eq)

lemma map_col_gravityRow:
  "map col (gravityRow g sel r) =
     filter (\<lambda>c. gravityCell g sel r c \<noteq> None) [0..<GRID_COLS]"
proof -
  have "col (the (gravityCell g sel r c)) = c" if "gravityCell g sel r c \<noteq> None" for c
    using that gravityCell_SomeD(4)[of g sel r c] by auto
  then have "map (col \<circ> (the \<circ> gravityCell g sel r))
                 (filter (\<lambda>c. gravityCell g sel r c \<noteq> None) [0..<GRID_COLS])
             = filter (\<lambda>c. gravityCell g sel r c \<noteq> None) [0..<GRID_COLS]"
    by (intro map_idI) simp
  then show ?thesis
    by (simp add: gravityRow_def List.map_filter_def)
qed

lemma rowOk_gravityRow: "rowOk r (gravityRow g sel r)"
  unfolding rowOk_def
proof (intro conjI ballI)
  fix b assume "b \<in> set (gravityRow g sel r)"
  then show "row b = r" "col b < GRID_COLS"
    by (auto simp: set_gravityRow dest: gravityCell_SomeD)
next
  show "distinct (map col (gravityRow g sel r))"
    by (simp add: map_col_gravityRow)
qed

lemma gridOk_gravity: "gridOk (map (gravityRow g sel) [0..<GRID_ROWS])"
  by (simp add: gridOk_def rowOk_gravityRow)

lemma concat_gravity_iff:
  "b' \<in> set (concat (map (gravityRow g sel) [0..<GRID_ROWS])) \<longleftrightarrow>
     (\<exists>r<GRID_ROWS. \<exists>c<GRID_COLS. gravityCell g sel r c = Some b')"
  by (auto simp: set_gravityRow)

text \<open>Where each block of the result comes from, and where each remaining block goes.\<close>

lemma gravity_origin:
  assumes "b' \<in> set (concat (map (gravityRow g sel) [0..<GRID_ROWS]))"
  obtains b where "b \<in> set (concat g)" "id_b b \<notin> set sel" "b' = b\<lparr>row := row b'\<rparr>"
    "row b' < GRID_ROWS" "col b' < GRID_COLS"
proof -
  from assms obtain r c where rc: "r < GRID_ROWS" "c < GRID_COLS"
    "gravityCell g sel r c = Some b'"
    unfolding concat_gravity_iff by blast
  note d = gravityCell_SomeD[OF rc(3)]
  let ?b = "settledColumn g sel c ! (GRID_ROWS - 1 - r)"
  have "?b \<in> set (concat g)" "id_b ?b \<notin> set sel"
    using settledColumn_nth[OF d(1)] by simp_all
  moreover have "b' = ?b\<lparr>row := row b'\<rparr>" using d(2) d(3) by simp
  moreover have "row b' < GRID_ROWS" "col b' < GRID_COLS" using d rc by simp_all
  ultimately show thesis by (rule that)
qed

lemma gravity_survivor:
  assumes ok: "gravityOk g sel" and b: "b \<in> set (concat g)" "id_b b \<notin> set sel"
  obtains r where "r < GRID_ROWS" "b\<lparr>row := r\<rparr> \<in> set (gravityRow g sel r)"
proof -
  let ?c = "col b"
  have c: "?c < GRID_COLS" using ok b by (simp add: gravityOk_def set_unselected)
  have "b \<in> set (settledColumn g sel ?c)"
    using b by (simp add: set_settledColumn set_unselected)
  then obtain i where i: "i < length (settledColumn g sel ?c)" "settledColumn g sel ?c ! i = b"
    by (auto simp: in_set_conv_nth)
  have len: "length (settledColumn g sel ?c) \<le> GRID_ROWS"
    using ok c by (simp add: gravityOk_def)
  let ?r = "GRID_ROWS - 1 - i"
  have r: "?r < GRID_ROWS" "GRID_ROWS - 1 - ?r = i" using i len by simp_all
  have "gravityCell g sel ?r ?c = Some (b\<lparr>row := ?r\<rparr>)"
    using i r by (simp add: gravityCell_def)
  then have "b\<lparr>row := ?r\<rparr> \<in> set (gravityRow g sel ?r)"
    using c by (auto simp: set_gravityRow)
  with r(1) show thesis by (rule that)
qed

lemma settled_gravity: "settled (map (gravityRow g sel) [0..<GRID_ROWS])"
  unfolding settled_def
proof (intro ballI impI)
  fix b assume b: "b \<in> set (concat (map (gravityRow g sel) [0..<GRID_ROWS]))"
    and below: "row b + 1 < GRID_ROWS"
  from b obtain r c where rc: "r < GRID_ROWS" "c < GRID_COLS" "gravityCell g sel r c = Some b"
    unfolding concat_gravity_iff by blast
  note d = gravityCell_SomeD[OF rc(3)]
  let ?n = "settledColumn g sel c"
  have "GRID_ROWS - 1 - (r + 1) < length ?n" using d(1) by simp
  then have cell: "gravityCell g sel (r + 1) c
                   = Some ((?n ! (GRID_ROWS - 1 - (r + 1)))\<lparr>row := r + 1, col := c\<rparr>)"
    by (simp add: gravityCell_def)
  let ?b' = "(?n ! (GRID_ROWS - 1 - (r + 1)))\<lparr>row := r + 1, col := c\<rparr>"
  have "?b' \<in> set (concat (map (gravityRow g sel) [0..<GRID_ROWS]))"
    unfolding concat_gravity_iff using cell rc(2) below d(3) by blast
  moreover have "col ?b' = col b" "row ?b' = row b + 1" using d by simp_all
  ultimately show "\<exists>b'\<in>set (concat (map (gravityRow g sel) [0..<GRID_ROWS])).
                     col b' = col b \<and> row b' = row b + 1"
    by blast
qed

section \<open>Well-formed grids\<close>

lemma GRID_ROWS_pos: "0 < GRID_ROWS" by (simp add: GRID_ROWS_def)

lemma in_concat_nth:
  "b \<in> set (concat g) \<longleftrightarrow> (\<exists>r<length g. b \<in> set (g ! r))"
proof
  assume "b \<in> set (concat g)"
  then obtain bs where "bs \<in> set g" "b \<in> set bs" by auto
  then show "\<exists>r<length g. b \<in> set (g ! r)" by (metis in_set_conv_nth)
next
  assume "\<exists>r<length g. b \<in> set (g ! r)"
  then show "b \<in> set (concat g)" by (metis concat.simps nth_mem set_concat UN_I)
qed

lemma valuesInRangeD:
  "valuesInRange g \<Longrightarrow> b \<in> set (concat g) \<Longrightarrow> 1 \<le> value_b b \<and> value_b b \<le> MAX_VALUE"
  unfolding valuesInRange_def by blast

lemma gridOk_nth: "gridOk g \<Longrightarrow> r < GRID_ROWS \<Longrightarrow> rowOk r (g ! r)"
  by (simp add: gridOk_def)

lemma gridOk_length: "gridOk g \<Longrightarrow> length g = GRID_ROWS"
  by (simp add: gridOk_def)

lemma gridOk_block:
  assumes "gridOk g" "b \<in> set (concat g)"
  shows "row b < GRID_ROWS" "col b < GRID_COLS" "b \<in> set (g ! row b)"
proof -
  from assms(2) obtain r where r: "r < length g" "b \<in> set (g ! r)"
    unfolding in_concat_nth by blast
  then have "rowOk r (g ! r)" using assms(1) by (simp add: gridOk_def)
  then have "row b = r" "col b < GRID_COLS" using r(2) by (simp_all add: rowOk_def)
  then show "row b < GRID_ROWS" "col b < GRID_COLS" "b \<in> set (g ! row b)"
    using r assms(1) by (simp_all add: gridOk_def)
qed

text \<open>A column holds at most one block of each row.\<close>

lemma distinct_col_filter_le1:
  "distinct (map col bs) \<Longrightarrow> length (filter (\<lambda>b. col b = c) bs) \<le> 1"
  by (induction bs) (auto simp: filter_empty_conv image_iff)

lemma length_filter_concat_le:
  "(\<And>bs. bs \<in> set g \<Longrightarrow> length (filter P bs) \<le> 1) \<Longrightarrow>
   length (filter P (concat g)) \<le> length g"
proof (induction g)
  case Nil
  show ?case by simp
next
  case (Cons bs g)
  have "length (filter P bs) \<le> 1" using Cons.prems by simp
  moreover have "length (filter P (concat g)) \<le> length g" using Cons by simp
  ultimately show ?case by simp
qed

lemma gridOk_column_length:
  assumes "gridOk g"
  shows "length (filter (\<lambda>b. col b = c) (concat g)) \<le> GRID_ROWS"
proof -
  have "length (filter (\<lambda>b. col b = c) bs) \<le> 1" if "bs \<in> set g" for bs
  proof -
    from that obtain r where "r < length g" "bs = g ! r" by (auto simp: in_set_conv_nth)
    then have "rowOk r bs" using assms by (simp add: gridOk_def)
    then have "distinct (map col bs)" by (simp add: rowOk_def)
    then show ?thesis by (rule distinct_col_filter_le1)
  qed
  then have "length (filter (\<lambda>b. col b = c) (concat g)) \<le> length g"
    by (rule length_filter_concat_le)
  then show ?thesis using assms by (simp add: gridOk_def)
qed

lemma length_settledColumn_le:
  "length (settledColumn g sel c) \<le> length (filter (\<lambda>b. col b = c) (concat g))"
proof -
  have "filter (\<lambda>b. col b = c) (unselected g sel)
        = filter (\<lambda>b. id_b b \<notin> set sel) (filter (\<lambda>b. col b = c) (concat g))"
    by (simp add: unselected_def conj_commute)
  moreover have "length (filter (\<lambda>b. id_b b \<notin> set sel) (filter (\<lambda>b. col b = c) (concat g)))
                 \<le> length (filter (\<lambda>b. col b = c) (concat g))"
    by (rule length_filter_le)
  ultimately show ?thesis by (simp only: settledColumn_def length_sort)
qed

lemma gridOk_gravityOk:
  assumes "gridOk g"
  shows "gravityOk g sel"
  unfolding gravityOk_def
proof (intro conjI ballI)
  fix b assume "b \<in> set (unselected g sel)"
  then show "col b < GRID_COLS"
    using gridOk_block(2)[OF assms] by (simp add: set_unselected)
next
  fix c
  show "length (settledColumn g sel c) \<le> GRID_ROWS"
    using length_settledColumn_le[of g sel c] gridOk_column_length[OF assms, of c]
    by simp
qed

lemma clearAndGravity_gridOk:
  "gridOk g \<Longrightarrow> clearAndGravity g sel = Some (map (gravityRow g sel) [0..<GRID_ROWS])"
  by (simp add: clearAndGravity_eq gridOk_gravityOk)

lemma clearAndGravity_SomeD:
  "clearAndGravity g sel = Some g' \<Longrightarrow>
   gravityOk g sel \<and> g' = map (gravityRow g sel) [0..<GRID_ROWS]"
  by (auto simp: clearAndGravity_eq split: if_splits)

subsection \<open>Positions\<close>

lemma distinct_positions_rows:
  "(\<And>i. i < length g \<Longrightarrow> distinct (map col (g ! i)) \<and> (\<forall>b\<in>set (g ! i). row b = k + i)) \<Longrightarrow>
   distinct (map (\<lambda>b. (row b, col b)) (concat g))"
proof (induction g arbitrary: k)
  case Nil
  show ?case by simp
next
  case (Cons bs g)
  have hd: "distinct (map col bs)" "\<forall>b\<in>set bs. row b = k"
    using Cons.prems[of 0] by simp_all
  have tl: "distinct (map col (g ! i)) \<and> (\<forall>b\<in>set (g ! i). row b = Suc k + i)"
    if "i < length g" for i
    using Cons.prems[of "Suc i"] that by simp
  have 1: "distinct (map (\<lambda>b. (row b, col b)) bs)"
    using hd(1) by (simp add: distinct_map inj_on_def)
  have 2: "distinct (map (\<lambda>b. (row b, col b)) (concat g))"
    using tl by (rule Cons.IH)
  have "row b \<noteq> k" if "b \<in> set (concat g)" for b
  proof -
    from that obtain i where "i < length g" "b \<in> set (g ! i)"
      unfolding in_concat_nth by blast
    then show ?thesis using tl by auto
  qed
  then have 3: "(\<lambda>b. (row b, col b)) ` set bs \<inter> (\<lambda>b. (row b, col b)) ` set (concat g) = {}"
    using hd(2) by force
  show ?case using 1 2 3 by simp
qed

lemma gridOk_noSharedPosition:
  assumes "gridOk g"
  shows "noSharedPosition g"
  unfolding noSharedPosition_def
proof (rule distinct_positions_rows[where k = 0])
  fix i assume "i < length g"
  then have "rowOk i (g ! i)" using assms by (simp add: gridOk_def)
  then show "distinct (map col (g ! i)) \<and> (\<forall>b\<in>set (g ! i). row b = 0 + i)"
    by (simp add: rowOk_def)
qed

subsection \<open>Created rows\<close>

lemma rowOk_createRow: "rowOk r (createRow r rnd)"
  by (auto simp: rowOk_def createRow_def comp_def)

lemma rowOk_Nil: "rowOk r []"
  by (simp add: rowOk_def)

lemma map_col_createRow: "map col (createRow r rnd) = [0..<GRID_COLS]"
  by (simp add: createRow_def comp_def)

lemma createRow_values:
  assumes "drawOk rnd" "b \<in> set (createRow r rnd)"
  shows "1 \<le> value_b b \<and> value_b b \<le> MAX_VALUE"
proof -
  from assms(2) obtain c where c: "c < GRID_COLS"
    and v: "value_b b = \<lfloor>snd (rnd c) * of_int MAX_VALUE\<rfloor> + 1"
    by (auto simp: createRow_def)
  have u: "0 \<le> snd (rnd c)" "snd (rnd c) < 1" using assms(1) c by (simp_all add: drawOk_def)
  have "0 \<le> snd (rnd c) * 9" "snd (rnd c) * 9 < 9" using u by simp_all
  then have "0 \<le> \<lfloor>snd (rnd c) * 9\<rfloor>" "\<lfloor>snd (rnd c) * 9\<rfloor> < 9"
    by (simp_all add: floor_less_iff)
  then show ?thesis using v by (simp add: MAX_VALUE_def)
qed

subsection \<open>The initial grid\<close>

lemma fold_update_rows:
  "b \<le> length g0 \<Longrightarrow>
   fold (\<lambda>r g. g[r := f r]) [a..<b] g0 =
     map (\<lambda>r. if a \<le> r \<and> r < b then f r else g0 ! r) [0..<length g0]"
proof (induction b)
  case 0
  then show ?case by (simp add: map_nth)
next
  case (Suc b)
  show ?case
  proof (cases "a \<le> b")
    case True
    then have "fold (\<lambda>r g. g[r := f r]) [a..<Suc b] g0
               = (map (\<lambda>r. if a \<le> r \<and> r < b then f r else g0 ! r) [0..<length g0])[b := f b]"
      using Suc by simp
    also have "\<dots> = map (\<lambda>r. if a \<le> r \<and> r < Suc b then f r else g0 ! r) [0..<length g0]"
      using True Suc.prems by (intro nth_equalityI) (auto simp: nth_list_update)
    finally show ?thesis .
  next
    case False
    then show ?thesis by (auto intro!: nth_equalityI)
  qed
qed

lemma grid_startGame:
  "grid (startGame m rnds u s) =
     map (\<lambda>r. if GRID_ROWS - INITIAL_ROWS \<le> r then createRow r (rnds r) else [])
         [0..<GRID_ROWS]"
proof -
  have "fold (\<lambda>r g. g[r := createRow r (rnds r)]) [GRID_ROWS - INITIAL_ROWS..<GRID_ROWS]
             (replicate GRID_ROWS [])
        = map (\<lambda>r. if GRID_ROWS - INITIAL_ROWS \<le> r \<and> r < GRID_ROWS
                    then createRow r (rnds r) else replicate GRID_ROWS [] ! r)
              [0..<length (replicate GRID_ROWS ([] :: Block list))]"
    by (rule fold_update_rows) simp
  also have "\<dots> = map (\<lambda>r. if GRID_ROWS - INITIAL_ROWS \<le> r then createRow r (rnds r) else [])
                       [0..<GRID_ROWS]"
    by simp
  finally show ?thesis by (simp add: startGame_def)
qed

lemma gridOk_startGame: "gridOk (grid (startGame m rnds u s))"
  by (simp add: grid_startGame gridOk_def rowOk_createRow rowOk_Nil)

lemma valuesInRange_startGame:
  assumes "\<forall>r\<in>{0..<GRID_ROWS}. drawOk (rnds r)"
  shows "valuesInRange (grid (startGame m rnds u s))"
  unfolding valuesInRange_def grid_startGame
  using assms by (auto dest!: createRow_values split: if_splits)

subsection \<open>Added rows\<close>

lemma addRowGrid_gridOk_eq:
  assumes "length g = GRID_ROWS"
  shows "addRowGrid g rnd =
           Some (map (\<lambda>r. if r < GRID_ROWS - 1 then map (\<lambda>b. b\<lparr>row := r\<rparr>) (g ! Suc r)
                           else createRow (GRID_ROWS - 1) rnd) [0..<GRID_ROWS])"
proof -
  have "map (\<lambda>r. map (\<lambda>b. b\<lparr>row := r\<rparr>) (g ! Suc r)) [0..<GRID_ROWS - 1]
          @ createRow (GRID_ROWS - 1) rnd # drop GRID_ROWS g
        = map (\<lambda>r. if r < GRID_ROWS - 1 then map (\<lambda>b. b\<lparr>row := r\<rparr>) (g ! Suc r)
                           else createRow (GRID_ROWS - 1) rnd) [0..<GRID_ROWS]"
    using assms GRID_ROWS_pos
    by (intro nth_equalityI) (auto simp: nth_append nth_Cons')
  then show ?thesis using assms by (simp add: addRowGrid_Some)
qed

lemma rowOk_shift:
  "rowOk r' bs \<Longrightarrow> rowOk r (map (\<lambda>b. b\<lparr>row := r\<rparr>) bs)"
  by (auto simp: rowOk_def comp_def)

lemma gridOk_addRowGrid:
  assumes "gridOk g" "addRowGrid g rnd = Some g'"
  shows "gridOk g'"
proof -
  have len: "length g = GRID_ROWS" using assms(1) by (simp add: gridOk_def)
  have g': "g' = map (\<lambda>r. if r < GRID_ROWS - 1 then map (\<lambda>b. b\<lparr>row := r\<rparr>) (g ! Suc r)
                           else createRow (GRID_ROWS - 1) rnd) [0..<GRID_ROWS]"
    using assms(2) addRowGrid_gridOk_eq[OF len, of rnd] by simp
  have "rowOk r (g' ! r)" if "r < GRID_ROWS" for r
  proof (cases "r < GRID_ROWS - 1")
    case True
    then have "rowOk (Suc r) (g ! Suc r)" using assms(1) by (simp add: gridOk_def)
    then show ?thesis using True that by (simp add: g' rowOk_shift)
  next
    case False
    then have "r = GRID_ROWS - 1" using that by simp
    then show ?thesis using that by (simp add: g' rowOk_createRow)
  qed
  then show ?thesis by (simp add: gridOk_def g')
qed

lemma valuesInRange_addRowGrid:
  assumes "length g = GRID_ROWS" "valuesInRange g" "drawOk rnd" "addRowGrid g rnd = Some g'"
  shows "valuesInRange g'"
proof -
  have g': "g' = map (\<lambda>r. if r < GRID_ROWS - 1 then map (\<lambda>b. b\<lparr>row := r\<rparr>) (g ! Suc r)
                           else createRow (GRID_ROWS - 1) rnd) [0..<GRID_ROWS]"
    using assms(4) addRowGrid_gridOk_eq[OF assms(1), of rnd] by simp
  have "1 \<le> value_b b \<and> value_b b \<le> MAX_VALUE" if "b \<in> set (concat g')" for b
  proof -
    from that obtain r where r: "r < GRID_ROWS" "b \<in> set (g' ! r)"
      unfolding in_concat_nth by (auto simp: g')
    show ?thesis
    proof (cases "r < GRID_ROWS - 1")
      case True
      then obtain b0 where "b0 \<in> set (g ! Suc r)" "b = b0\<lparr>row := r\<rparr>"
        using r by (auto simp: g')
      moreover have "b0 \<in> set (concat g)"
        unfolding in_concat_nth using True assms(1) calculation(1) by (intro exI[of _ "Suc r"]) simp
      ultimately show ?thesis using valuesInRangeD[OF assms(2), of b0] by simp
    next
      case False
      then have "b \<in> set (createRow (GRID_ROWS - 1) rnd)" using r by (simp add: g')
      then show ?thesis using assms(3) by (rule createRow_values[rotated])
    qed
  qed
  then show ?thesis by (simp add: valuesInRange_def)
qed

lemma valuesInRange_gravity:
  assumes "valuesInRange g"
  shows "valuesInRange (map (gravityRow g sel) [0..<GRID_ROWS])"
  unfolding valuesInRange_def
proof
  fix b' assume "b' \<in> set (concat (map (gravityRow g sel) [0..<GRID_ROWS]))"
  then obtain b where "b \<in> set (concat g)" "b' = b\<lparr>row := row b'\<rparr>"
    by (rule gravity_origin)
  then have "value_b b' = value_b (b\<lparr>row := row b'\<rparr>)"
    "1 \<le> value_b b \<and> value_b b \<le> MAX_VALUE"
    using valuesInRangeD[OF assms, of b] by simp_all
  then show "1 \<le> value_b b' \<and> value_b b' \<le> MAX_VALUE" by simp
qed

section \<open>Counting the blocks\<close>

text \<open>Sums over lists of indices.\<close>

lemma sum_list_swap:
  fixes f :: "'a \<Rightarrow> 'b \<Rightarrow> 'c::comm_monoid_add"
  shows "(\<Sum>x\<leftarrow>xs. \<Sum>y\<leftarrow>ys. f x y) = (\<Sum>y\<leftarrow>ys. \<Sum>x\<leftarrow>xs. f x y)"
  by (induction xs) (simp_all add: sum_list_addf)

lemma sum_list_upt_reverse:
  fixes h :: "nat \<Rightarrow> 'c::comm_monoid_add"
  shows "(\<Sum>r\<leftarrow>[0..<n]. h (n - 1 - r)) = (\<Sum>i\<leftarrow>[0..<n]. h i)"
proof -
  have "map (\<lambda>r. h (n - 1 - r)) [0..<n] = rev (map h [0..<n])"
    by (intro nth_equalityI) (auto simp: rev_nth)
  then show ?thesis by (simp add: sum_list_rev del: rev_map)
qed

lemma sum_list_upt_cut:
  fixes F :: "nat \<Rightarrow> 'c::comm_monoid_add"
  assumes "n \<le> m"
  shows "(\<Sum>i\<leftarrow>[0..<m]. if i < n then F i else 0) = (\<Sum>i\<leftarrow>[0..<n]. F i)"
proof -
  have "[0..<n + (m - n)] = [0..<n] @ [n..<n + (m - n)]"
    by (rule upt_add_eq_append) simp
  then have split: "[0..<m] = [0..<n] @ [n..<m]"
    using assms by simp
  have "(\<Sum>i\<leftarrow>[0..<m]. if i < n then F i else 0)
             = (\<Sum>i\<leftarrow>[0..<n]. if i < n then F i else 0)
               + (\<Sum>i\<leftarrow>[n..<m]. if i < n then F i else 0)"
    by (subst split) (simp only: map_append sum_list_append)
  moreover have "(\<Sum>i\<leftarrow>[0..<n]. if i < n then F i else 0) = (\<Sum>i\<leftarrow>[0..<n]. F i)"
    by (intro arg_cong[where f = sum_list] map_cong) simp_all
  moreover have "(\<Sum>i\<leftarrow>[n..<m]. if i < n then F i else 0) = (\<Sum>i\<leftarrow>[n..<m]. 0)"
    by (intro arg_cong[where f = sum_list] map_cong) simp_all
  ultimately show ?thesis by simp
qed

lemma sum_list_upt_single:
  fixes x :: "'c::comm_monoid_add"
  shows "k < n \<Longrightarrow> (\<Sum>c\<leftarrow>[0..<n]. if k = c then x else 0) = x"
proof (induction n)
  case 0
  then show ?case by simp
next
  case (Suc n)
  show ?case
  proof (cases "k = n")
    case True
    then have "(\<Sum>c\<leftarrow>[0..<n]. if k = c then x else 0) = (\<Sum>c\<leftarrow>[0..<n]. 0)"
      by (intro arg_cong[where f = sum_list] map_cong) simp_all
    then show ?thesis using True by simp
  next
    case False
    then show ?thesis using Suc by simp
  qed
qed

lemma sum_list_singletons: "(\<Sum>x\<leftarrow>xs. {#f x#}) = image_mset f (mset xs)"
  by (induction xs) simp_all

lemma image_mset_sum_list_map:
  "image_mset f (\<Sum>x\<leftarrow>xs. M x) = (\<Sum>x\<leftarrow>xs. image_mset f (M x))"
  by (induction xs) simp_all

lemma mset_map_filter_sum:
  "mset (List.map_filter f xs) = (\<Sum>x\<leftarrow>xs. case f x of None \<Rightarrow> {#} | Some y \<Rightarrow> {#y#})"
  by (induction xs) (simp_all add: map_filter_simps split: option.split)

lemma mset_partition_columns:
  "\<forall>b\<in>set bs. col b < n \<Longrightarrow>
   (\<Sum>c\<leftarrow>[0..<n]. image_mset f (mset (filter (\<lambda>b. col b = c) bs))) = image_mset f (mset bs)"
proof (induction bs)
  case Nil
  show ?case by simp
next
  case (Cons b bs)
  have "(\<Sum>c\<leftarrow>[0..<n]. image_mset f (mset (filter (\<lambda>b. col b = c) (b # bs))))
        = (\<Sum>c\<leftarrow>[0..<n]. (if col b = c then {#f b#} else {#})
                          + image_mset f (mset (filter (\<lambda>b. col b = c) bs)))"
    by (intro arg_cong[where f = sum_list] map_cong) simp_all
  also have "\<dots> = (\<Sum>c\<leftarrow>[0..<n]. if col b = c then {#f b#} else {#})
                   + (\<Sum>c\<leftarrow>[0..<n]. image_mset f (mset (filter (\<lambda>b. col b = c) bs)))"
    by (rule sum_list_addf)
  also have "\<dots> = {#f b#} + image_mset f (mset bs)"
    using Cons by (simp add: sum_list_upt_single)
  finally show ?case by simp
qed

text \<open>The tiles of one column after gravity, and of the whole grid.\<close>

lemma column_tiles:
  assumes len: "length (settledColumn g sel c) \<le> GRID_ROWS"
  shows "(\<Sum>r\<leftarrow>[0..<GRID_ROWS].
            case gravityCell g sel r c of None \<Rightarrow> {#} | Some y \<Rightarrow> {#tileOf y#})
         = image_mset tileOf (mset (filter (\<lambda>b. col b = c) (unselected g sel)))"
proof -
  let ?n = "settledColumn g sel c"
  let ?h = "\<lambda>i. if i < length ?n then {#tileOf (?n ! i)#} else {#}"
  have cell: "(case gravityCell g sel r c of None \<Rightarrow> {#} | Some y \<Rightarrow> {#tileOf y#})
              = ?h (GRID_ROWS - 1 - r)" for r
  proof (cases "GRID_ROWS - 1 - r < length ?n")
    case True
    then have "col (?n ! (GRID_ROWS - 1 - r)) = c" by (rule settledColumn_nth)
    then show ?thesis using True by (simp add: gravityCell_def tileOf_def)
  next
    case False
    then show ?thesis by (simp add: gravityCell_def)
  qed
  have "(\<Sum>r\<leftarrow>[0..<GRID_ROWS].
            case gravityCell g sel r c of None \<Rightarrow> {#} | Some y \<Rightarrow> {#tileOf y#})
        = (\<Sum>r\<leftarrow>[0..<GRID_ROWS]. ?h (GRID_ROWS - 1 - r))"
    by (simp only: cell)
  also have "\<dots> = (\<Sum>i\<leftarrow>[0..<GRID_ROWS]. ?h i)"
    by (rule sum_list_upt_reverse)
  also have "\<dots> = (\<Sum>i\<leftarrow>[0..<length ?n]. {#tileOf (?n ! i)#})"
    using len by (rule sum_list_upt_cut)
  also have "\<dots> = (\<Sum>b\<leftarrow>?n. {#tileOf b#})"
  proof -
    have "map (\<lambda>i. {#tileOf (?n ! i)#}) [0..<length ?n] = map (\<lambda>b. {#tileOf b#}) ?n"
      by (intro nth_equalityI) simp_all
    then show ?thesis by simp
  qed
  also have "\<dots> = image_mset tileOf (mset ?n)"
    by (rule sum_list_singletons)
  finally show ?thesis by (simp add: mset_settledColumn)
qed

lemma gravity_tiles:
  assumes "gravityOk g sel"
  shows "mset (map tileOf (concat (map (gravityRow g sel) [0..<GRID_ROWS])))
         = mset (map tileOf (unselected g sel))"
proof -
  let ?cell = "\<lambda>r c. case gravityCell g sel r c of None \<Rightarrow> {#} | Some y \<Rightarrow> {#tileOf y#}"
  have row: "image_mset tileOf (mset (gravityRow g sel r)) = (\<Sum>c\<leftarrow>[0..<GRID_COLS]. ?cell r c)"
    for r
  proof -
    have "image_mset tileOf (case x of None \<Rightarrow> {#} | Some y \<Rightarrow> {#y#})
          = (case x of None \<Rightarrow> {#} | Some y \<Rightarrow> {#tileOf y#})" for x :: "Block option"
      by (cases x) simp_all
    then show ?thesis
      by (simp add: gravityRow_def mset_map_filter_sum image_mset_sum_list_map)
  qed
  have "mset (map tileOf (concat (map (gravityRow g sel) [0..<GRID_ROWS])))
        = (\<Sum>r\<leftarrow>[0..<GRID_ROWS]. image_mset tileOf (mset (gravityRow g sel r)))"
    by (simp add: mset_concat image_mset_sum_list_map comp_def)
  also have "\<dots> = (\<Sum>r\<leftarrow>[0..<GRID_ROWS]. \<Sum>c\<leftarrow>[0..<GRID_COLS]. ?cell r c)"
    by (simp only: row)
  also have "\<dots> = (\<Sum>c\<leftarrow>[0..<GRID_COLS]. \<Sum>r\<leftarrow>[0..<GRID_ROWS]. ?cell r c)"
    by (rule sum_list_swap)
  also have "\<dots> = (\<Sum>c\<leftarrow>[0..<GRID_COLS].
                      image_mset tileOf (mset (filter (\<lambda>b. col b = c) (unselected g sel))))"
    using assms
    by (intro arg_cong[where f = sum_list] map_cong refl column_tiles) (simp add: gravityOk_def)
  also have "\<dots> = image_mset tileOf (mset (unselected g sel))"
    using assms by (intro mset_partition_columns) (simp add: gravityOk_def)
  finally show ?thesis by simp
qed

section \<open>Order in a column, the top row, and the blocks of an added row\<close>

text \<open>Order within a column.\<close>

lemma gravity_order:
  assumes ids: "distinct (map id_b (concat g))"
    and a: "a \<in> set (concat g)" and b: "b \<in> set (concat g)"
    and same: "col a = col b" and above: "row a < row b"
    and a': "a' \<in> set (concat (map (gravityRow g sel) [0..<GRID_ROWS]))" "id_b a' = id_b a"
    and b': "b' \<in> set (concat (map (gravityRow g sel) [0..<GRID_ROWS]))" "id_b b' = id_b b"
  shows "row a' < row b'"
proof -
  have inj: "inj_on id_b (set (concat g))" using ids by (simp add: distinct_map)
  from a'(1) obtain ra ca where ra: "ra < GRID_ROWS" "gravityCell g sel ra ca = Some a'"
    unfolding concat_gravity_iff by blast
  from b'(1) obtain rb cb where rb: "rb < GRID_ROWS" "gravityCell g sel rb cb = Some b'"
    unfolding concat_gravity_iff by blast
  note da = gravityCell_SomeD[OF ra(2)] and db = gravityCell_SomeD[OF rb(2)]
  let ?ia = "GRID_ROWS - 1 - ra" and ?ib = "GRID_ROWS - 1 - rb"
  have "settledColumn g sel ca ! ?ia \<in> set (concat g)"
    "id_b (settledColumn g sel ca ! ?ia) = id_b a"
    using settledColumn_nth(1)[OF da(1)] da(2) a'(2) by simp_all
  then have xa: "settledColumn g sel ca ! ?ia = a" using inj a by (auto dest: inj_onD)
  have "settledColumn g sel cb ! ?ib \<in> set (concat g)"
    "id_b (settledColumn g sel cb ! ?ib) = id_b b"
    using settledColumn_nth(1)[OF db(1)] db(2) b'(2) by simp_all
  then have xb: "settledColumn g sel cb ! ?ib = b" using inj b by (auto dest: inj_onD)
  have "ca = col a" "cb = col b"
    using settledColumn_nth(3)[OF da(1)] settledColumn_nth(3)[OF db(1)] xa xb by simp_all
  then have cols: "cb = ca" using same by simp
  let ?n = "settledColumn g sel ca"
  have lt: "?ib < ?ia"
  proof (rule ccontr)
    assume "\<not> ?ib < ?ia"
    then have le: "?ia \<le> ?ib" by simp
    have "?ib < length (map (\<lambda>b. - int (row b)) ?n)" using db(1) cols by simp
    with le have "map (\<lambda>b. - int (row b)) ?n ! ?ia \<le> map (\<lambda>b. - int (row b)) ?n ! ?ib"
      using sorted_settledColumn[of g sel ca] by (intro sorted_nth_mono)
    then have "- int (row a) \<le> - int (row b)"
      using da(1) db(1) xa xb cols by simp
    with above show False by simp
  qed
  then have "ra < rb" using ra(1) rb(1) by arith
  then show ?thesis using da(3) db(3) by simp
qed

text \<open>The top row stays empty.\<close>

lemma gravity_top_row_empty:
  assumes ok: "gridOk g" and top: "g ! 0 = []"
  shows "gravityRow g sel 0 = []"
proof -
  have len: "length (settledColumn g sel c) \<le> GRID_ROWS - 1" for c
  proof -
    have g: "g = [] # tl g" using ok top GRID_ROWS_pos
      by (cases g) (auto simp: gridOk_def)
    have "length (filter (\<lambda>b. col b = c) bs) \<le> 1" if "bs \<in> set (tl g)" for bs
    proof -
      from that have "bs \<in> set g" by (metis g list.set_intros(2))
      then obtain r where "r < length g" "bs = g ! r" by (auto simp: in_set_conv_nth)
      then have "rowOk r bs" using ok by (simp add: gridOk_def)
      then have "distinct (map col bs)" by (simp add: rowOk_def)
      then show ?thesis by (rule distinct_col_filter_le1)
    qed
    then have "length (filter (\<lambda>b. col b = c) (concat (tl g))) \<le> length (tl g)"
      by (rule length_filter_concat_le)
    moreover have "concat g = concat (tl g)" by (subst g) simp
    moreover have "length (tl g) = GRID_ROWS - 1" using ok by (simp add: gridOk_def)
    ultimately show ?thesis using length_settledColumn_le[of g sel c] by simp
  qed
  have "gravityCell g sel 0 c = None" for c
    using len[of c] by (simp add: gravityCell_def)
  then show ?thesis by (simp add: gravityRow_def List.map_filter_def)
qed

text \<open>The blocks after \<open>addRow\<close>.\<close>

lemma addRowGrid_blocks:
  assumes len: "length g = GRID_ROWS" and res: "addRowGrid g rnd = Some g'"
  shows "b' \<in> set (concat g') \<longleftrightarrow>
           (\<exists>r b. r + 1 < GRID_ROWS \<and> b \<in> set (g ! (r + 1)) \<and> b' = b\<lparr>row := r\<rparr>)
           \<or> b' \<in> set (createRow (GRID_ROWS - 1) rnd)"
proof -
  have g': "g' = map (\<lambda>r. if r < GRID_ROWS - 1 then map (\<lambda>b. b\<lparr>row := r\<rparr>) (g ! Suc r)
                           else createRow (GRID_ROWS - 1) rnd) [0..<GRID_ROWS]"
    using res addRowGrid_gridOk_eq[OF len, of rnd] by simp
  have nth: "g' ! r = (if r < GRID_ROWS - 1 then map (\<lambda>b. b\<lparr>row := r\<rparr>) (g ! Suc r)
                       else createRow (GRID_ROWS - 1) rnd)" if "r < GRID_ROWS" for r
    using that by (simp add: g')
  have lg: "length g' = GRID_ROWS" by (simp add: g')
  show ?thesis
  proof
    assume "b' \<in> set (concat g')"
    then obtain r where r: "r < GRID_ROWS" "b' \<in> set (g' ! r)"
      unfolding in_concat_nth lg by blast
    show "(\<exists>r b. r + 1 < GRID_ROWS \<and> b \<in> set (g ! (r + 1)) \<and> b' = b\<lparr>row := r\<rparr>)
           \<or> b' \<in> set (createRow (GRID_ROWS - 1) rnd)"
    proof (cases "r < GRID_ROWS - 1")
      case True
      then obtain b where "b \<in> set (g ! Suc r)" "b' = b\<lparr>row := r\<rparr>"
        using r by (auto simp: nth)
      then show ?thesis using True by (intro disjI1 exI[of _ r] exI[of _ b]) simp
    next
      case False
      then show ?thesis using r by (simp add: nth)
    qed
  next
    assume "(\<exists>r b. r + 1 < GRID_ROWS \<and> b \<in> set (g ! (r + 1)) \<and> b' = b\<lparr>row := r\<rparr>)
           \<or> b' \<in> set (createRow (GRID_ROWS - 1) rnd)"
    then show "b' \<in> set (concat g')"
    proof
      assume "\<exists>r b. r + 1 < GRID_ROWS \<and> b \<in> set (g ! (r + 1)) \<and> b' = b\<lparr>row := r\<rparr>"
      then obtain r b where rb: "r + 1 < GRID_ROWS" "b \<in> set (g ! (r + 1))" "b' = b\<lparr>row := r\<rparr>"
        by blast
      moreover have "r < GRID_ROWS - 1" "r < GRID_ROWS" using rb(1) by simp_all
      ultimately have "b' \<in> set (g' ! r)" by (simp add: nth)
      then show ?thesis unfolding in_concat_nth lg using rb(1) by (intro exI[of _ r]) simp
    next
      assume "b' \<in> set (createRow (GRID_ROWS - 1) rnd)"
      then have "b' \<in> set (g' ! (GRID_ROWS - 1))" using GRID_ROWS_pos by (simp add: nth)
      then show ?thesis unfolding in_concat_nth lg using GRID_ROWS_pos
        by (intro exI[of _ "GRID_ROWS - 1"]) simp
    qed
  qed
qed

lemma createRow_block:
  "b \<in> set (createRow r rnd) \<longleftrightarrow>
     (\<exists>c<GRID_COLS. b = \<lparr>id_b = fst (rnd c),
                           value_b = \<lfloor>snd (rnd c) * of_int MAX_VALUE\<rfloor> + 1, row = r, col = c\<rparr>)"
  by (auto simp: createRow_def)

lemma settled_addRowGrid:
  assumes ok: "gridOk g" and st: "settled g" and res: "addRowGrid g rnd = Some g'"
  shows "settled g'"
  unfolding settled_def
proof (intro ballI impI)
  have len: "length g = GRID_ROWS" using ok by (simp add: gridOk_def)
  note blocks = addRowGrid_blocks[OF len res]
  fix b' assume b': "b' \<in> set (concat g')" and below: "row b' + 1 < GRID_ROWS"
  have fresh: "\<exists>x\<in>set (concat g'). col x = c \<and> row x = GRID_ROWS - 1" if "c < GRID_COLS" for c
  proof -
    let ?x = "\<lparr>id_b = fst (rnd c), value_b = \<lfloor>snd (rnd c) * of_int MAX_VALUE\<rfloor> + 1,
               row = GRID_ROWS - 1, col = c\<rparr>"
    have "?x \<in> set (createRow (GRID_ROWS - 1) rnd)"
      unfolding createRow_block using that by blast
    then have "?x \<in> set (concat g')" unfolding blocks by blast
    then show ?thesis by (intro bexI[of _ ?x]) simp_all
  qed
  from b' consider
      (shift) r b where "r + 1 < GRID_ROWS" "b \<in> set (g ! (r + 1))" "b' = b\<lparr>row := r\<rparr>"
    | (new) "b' \<in> set (createRow (GRID_ROWS - 1) rnd)"
    unfolding blocks by blast
  then show "\<exists>x\<in>set (concat g'). col x = col b' \<and> row x = row b' + 1"
  proof cases
    case shift
    have bg: "b \<in> set (concat g)"
      unfolding in_concat_nth using shift(1,2) len by (intro exI[of _ "r + 1"]) simp
    have rk: "rowOk (r + 1) (g ! (r + 1))" using ok shift(1) by (simp add: gridOk_def)
    then have rb: "row b = r + 1" "col b < GRID_COLS" using shift(2) by (simp_all add: rowOk_def)
    show ?thesis
    proof (cases "r + 2 < GRID_ROWS")
      case True
      then have "row b + 1 < GRID_ROWS" using rb by simp
      with st bg obtain y where y: "y \<in> set (concat g)" "col y = col b" "row y = row b + 1"
        unfolding settled_def by blast
      then have "y \<in> set (g ! row y)" by (intro gridOk_block(3)[OF ok])
      then have "y \<in> set (g ! ((r + 1) + 1))" using y(3) rb by simp
      then have "y\<lparr>row := r + 1\<rparr> \<in> set (concat g')"
        unfolding blocks using True by (intro disjI1 exI[of _ "r + 1"] exI[of _ y]) simp
      then show ?thesis using y(2) shift(3) by (intro bexI[of _ "y\<lparr>row := r + 1\<rparr>"]) simp_all
    next
      case False
      then have "row b' + 1 = GRID_ROWS - 1" using shift(1,3) by simp
      then show ?thesis using fresh[OF rb(2)] shift(3) by simp
    qed
  next
    case new
    then have "row b' = GRID_ROWS - 1" by (auto simp: createRow_block)
    with below show ?thesis by simp
  qed
qed

text \<open>Counting the selected blocks.\<close>

lemma length_selected:
  assumes "distinct (map f xs)" "distinct ys" "set ys \<subseteq> f ` set xs"
  shows "length (filter (\<lambda>x. f x \<in> set ys) xs) = length ys"
proof -
  have dx: "distinct xs" and inj: "inj_on f (set xs)"
    using assms(1) by (simp_all add: distinct_map)
  have "length (filter (\<lambda>x. f x \<in> set ys) xs) = card {x \<in> set xs. f x \<in> set ys}"
    using dx by (metis distinct_card distinct_filter set_filter)
  also have "\<dots> = card (f ` {x \<in> set xs. f x \<in> set ys})"
    using inj by (intro card_image[symmetric]) (auto simp: inj_on_def)
  also have "f ` {x \<in> set xs. f x \<in> set ys} = set ys"
    using assms(3) by auto
  also have "card (set ys) = length ys"
    using assms(2) by (rule distinct_card)
  finally show ?thesis .
qed

lemma currentSum_sum_list:
  "currentSum g sel = sum_list (map value_b (filter (\<lambda>b. id_b b \<in> set sel) (concat g)))"
proof -
  have F: "fold (\<lambda>block sum. if id_b block \<in> set sel then sum + value_b block else sum) bs k
        = k + sum_list (map value_b (filter (\<lambda>b. id_b b \<in> set sel) bs))" for bs k
    by (induction bs arbitrary: k) simp_all
  show ?thesis unfolding currentSum_def F by simp
qed

section \<open>Overflow and undershoot\<close>

text \<open>
  C5. When the sum of the selected blocks exceeds the target, the effect clears the
  selection and changes nothing else: grid, score, target and level stay as they are.
  When the sum is below the target, the effect changes nothing at all.
\<close>

theorem C5_overflow_clears_selection_only:
  "(target s < currentSum (grid s) (selectedIds s) \<longrightarrow>
      (\<exists>s'. checkSumEffect s u rnd = Some s' \<and> s' = s\<lparr>selectedIds := []\<rparr> \<and>
            selectedIds s' = [] \<and> grid s' = grid s \<and> score s' = score s \<and>
            target s' = target s \<and> level s' = level s)) \<and>
   (currentSum (grid s) (selectedIds s) < target s \<longrightarrow> checkSumEffect s u rnd = Some s)"
  by (simp add: checkSumEffect_def)

theorem C5_overflow_witness:
  "target (exState Time [''c'', ''d'', ''e'']) = 10 \<and>
   currentSum exGrid [''c'', ''d'', ''e''] = 15 \<and>
   checkSumEffect (exState Time [''c'', ''d'', ''e'']) (1 / 2) exDraw
     = Some (exState Time []) \<and>
   currentSum exGrid [''a''] = 3 \<and>
   checkSumEffect (exState Time [''a'']) (1 / 2) exDraw = Some (exState Time [''a''])"
proof -
  have over: "currentSum exGrid [''c'', ''d'', ''e''] = 15" by code_simp
  have under: "currentSum exGrid [''a''] = 3" by code_simp
  have t: "target (exState m sel) = 10" "grid (exState m sel) = exGrid"
    "selectedIds (exState m sel) = sel" "(exState m sel)\<lparr>selectedIds := []\<rparr> = exState m []"
    for m sel
    by (simp_all add: exState_def)
  show ?thesis
    using C5_overflow_clears_selection_only
            [of "exState Time [''c'', ''d'', ''e'']" "1 / 2" exDraw]
          C5_overflow_clears_selection_only [of "exState Time [''a'']" "1 / 2" exDraw]
    by (simp add: t over under)
qed

section \<open>A successful match\<close>

lemma checkSumEffect_match:
  assumes ok: "gridOk (grid s)"
    and sum: "currentSum (grid s) (selectedIds s) = target s" and pos: "0 < target s"
  shows "\<exists>g2.
    (mode s = Time \<longrightarrow> g2 = map (gravityRow (grid s) (selectedIds s)) [0..<GRID_ROWS]) \<and>
    (mode s = Classic \<longrightarrow>
       addRowGrid (map (gravityRow (grid s) (selectedIds s)) [0..<GRID_ROWS]) rnd = Some g2) \<and>
    checkSumEffect s u rnd =
       Some (s\<lparr>score := score s + target s * int (length (selectedIds s)),
               grid := g2,
               selectedIds := [],
               target := generateTarget (mode s) (level s) u,
               timeLeft := TIME_LIMIT,
               level := (if score s > level s * 500 then level s + 1 else level s)\<rparr>)"
proof -
  let ?g1 = "map (gravityRow (grid s) (selectedIds s)) [0..<GRID_ROWS]"
  have cg: "clearAndGravity (grid s) (selectedIds s) = Some ?g1"
    using ok by (rule clearAndGravity_gridOk)
  obtain g2 where g2: "(if mode s = Classic then addRowGrid ?g1 rnd else Some ?g1) = Some g2"
    by (cases "mode s = Classic") (simp_all add: addRowGrid_gridOk_eq)
  have "checkSumEffect s u rnd =
       Some (s\<lparr>score := score s + target s * int (length (selectedIds s)),
               grid := g2,
               selectedIds := [],
               target := generateTarget (mode s) (level s) u,
               timeLeft := TIME_LIMIT,
               level := (if score s > level s * 500 then level s + 1 else level s)\<rparr>)"
    unfolding checkSumEffect_def using sum pos
    by (simp only: cg g2 Let_def option.case if_True simp_thms)
  moreover have "g2 = ?g1" if "mode s = Time" using g2 that by simp
  moreover have "addRowGrid ?g1 rnd = Some g2" if "mode s = Classic" using g2 that by simp
  ultimately show ?thesis by blast
qed

text \<open>
  C1. In a state with a well-formed grid (as every reachable state with such a
  selection has, \<open>reachable_match_gridOk\<close>) whose selected blocks sum to the
  positive target, the sum effect adds
  \<open>target * length selectedIds\<close> to the score, empties the selection, and clears the
  grid of the selected blocks: the grid after clearing and gravity holds, with
  identity, value and column unchanged, the blocks that were not selected, each as
  often as before. In time mode that is the new grid; in classic mode \<open>addRow\<close> is
  then applied to it. In a state whose selection lists each chosen block once, by
  identifiers that are unique in the grid, \<open>length selectedIds\<close> is the number of
  selected blocks.
\<close>

theorem C1_match_awards_and_clears:
  assumes "gridOk (grid s)"
    and "currentSum (grid s) (selectedIds s) = target s" and "0 < target s"
  shows "\<exists>s' g1.
           checkSumEffect s u rnd = Some s' \<and>
           score s' = score s + target s * int (length (selectedIds s)) \<and>
           selectedIds s' = [] \<and>
           clearAndGravity (grid s) (selectedIds s) = Some g1 \<and>
           mset (map tileOf (concat g1))
             = mset (map tileOf (filter (\<lambda>b. id_b b \<notin> set (selectedIds s)) (concat (grid s)))) \<and>
           (mode s = Time \<longrightarrow> grid s' = g1) \<and>
           (mode s = Classic \<longrightarrow> addRowGrid g1 rnd = Some (grid s')) \<and>
           (distinct (map id_b (concat (grid s))) \<and> distinct (selectedIds s) \<and>
            set (selectedIds s) \<subseteq> id_b ` set (concat (grid s)) \<longrightarrow>
              length (filter (\<lambda>b. id_b b \<in> set (selectedIds s)) (concat (grid s)))
                = length (selectedIds s))"
proof -
  let ?g1 = "map (gravityRow (grid s) (selectedIds s)) [0..<GRID_ROWS]"
  have cg: "clearAndGravity (grid s) (selectedIds s) = Some ?g1"
    using assms(1) by (rule clearAndGravity_gridOk)
  from checkSumEffect_match[OF assms, of rnd u] obtain g2 where g2:
    "mode s = Time \<longrightarrow> g2 = ?g1"
    "mode s = Classic \<longrightarrow> addRowGrid ?g1 rnd = Some g2"
    "checkSumEffect s u rnd =
       Some (s\<lparr>score := score s + target s * int (length (selectedIds s)),
               grid := g2,
               selectedIds := [],
               target := generateTarget (mode s) (level s) u,
               timeLeft := TIME_LIMIT,
               level := (if score s > level s * 500 then level s + 1 else level s)\<rparr>)"
    by blast
  have tiles: "mset (map tileOf (concat ?g1))
      = mset (map tileOf (filter (\<lambda>b. id_b b \<notin> set (selectedIds s)) (concat (grid s))))"
    using gravity_tiles[OF gridOk_gravityOk[OF assms(1)], of "selectedIds s"]
    by (simp add: unselected_def)
  have count: "length (filter (\<lambda>b. id_b b \<in> set (selectedIds s)) (concat (grid s)))
                = length (selectedIds s)"
    if "distinct (map id_b (concat (grid s))) \<and> distinct (selectedIds s) \<and>
        set (selectedIds s) \<subseteq> id_b ` set (concat (grid s))"
    using that by (intro length_selected) simp_all
  show ?thesis
    apply (rule exI[of _ "s\<lparr>score := score s + target s * int (length (selectedIds s)),
               grid := g2,
               selectedIds := [],
               target := generateTarget (mode s) (level s) u,
               timeLeft := TIME_LIMIT,
               level := (if score s > level s * 500 then level s + 1 else level s)\<rparr>"])
    apply (rule exI[of _ ?g1])
    using g2 cg tiles count by simp
qed

theorem C1_example_3_and_7:
  "gridOk (grid (exState Time [''a'', ''d''])) \<and>
   currentSum (grid (exState Time [''a'', ''d''])) (selectedIds (exState Time [''a'', ''d''])) = 10 \<and>
   target (exState Time [''a'', ''d'']) = 10 \<and>
   map value_b (filter (\<lambda>b. id_b b \<in> set [''a'', ''d'']) (concat exGrid)) = [3, 7] \<and>
   distinct (map id_b (concat exGrid)) \<and> distinct [''a'', ''d''] \<and>
   set [''a'', ''d''] \<subseteq> id_b ` set (concat exGrid) \<and>
   length (filter (\<lambda>b. id_b b \<in> set [''a'', ''d'']) (concat exGrid)) = length [''a'', ''d''] \<and>
   (\<exists>s'. checkSumEffect (exState Time [''a'', ''d'']) (1 / 2) exDraw = Some s' \<and>
         score s' = score (exState Time [''a'', ''d'']) + 20 \<and>
         selectedIds s' = [] \<and>
         Some (grid s') = clearAndGravity exGrid [''a'', ''d''] \<and>
         map id_b (concat (grid s')) = [''c'', ''b'', ''e'', ''f'', ''g'', ''h'']) \<and>
   (\<exists>s' g1. checkSumEffect (exState Classic [''a'', ''d'']) (1 / 2) exDraw = Some s' \<and>
         score s' = score (exState Classic [''a'', ''d'']) + 20 \<and>
         selectedIds s' = [] \<and>
         clearAndGravity exGrid [''a'', ''d''] = Some g1 \<and>
         addRowGrid g1 exDraw = Some (grid s'))"
proof -
  let ?s = "exState Time [''a'', ''d'']"
  let ?c = "exState Classic [''a'', ''d'']"
  have sel: "grid (exState m xs) = exGrid" "selectedIds (exState m xs) = xs"
    "target (exState m xs) = 10" "mode (exState m xs) = m" for m xs
    by (simp_all add: exState_def)
  have ok: "gridOk (grid (exState m [''a'', ''d'']))" for m unfolding sel by code_simp
  have sum: "currentSum (grid (exState m [''a'', ''d''])) (selectedIds (exState m [''a'', ''d'']))
             = target (exState m [''a'', ''d''])" for m
    unfolding sel by code_simp
  have pos: "0 < target (exState m [''a'', ''d''])" for m unfolding sel by simp
  have vals: "map value_b (filter (\<lambda>b. id_b b \<in> set [''a'', ''d'']) (concat exGrid)) = [3, 7]"
    by code_simp
  have d1: "distinct (map id_b (concat exGrid))" by code_simp
  have d2: "distinct [''a'', ''d'']" by simp
  have sub: "set [''a'', ''d''] \<subseteq> id_b ` set (concat exGrid)" by code_simp
  have cg: "clearAndGravity exGrid [''a'', ''d''] =
     Some [[], [], [], [], [], [], [],
           [\<lparr>id_b = ''c'', value_b = 7, row = 7, col = 2\<rparr>],
           [\<lparr>id_b = ''b'', value_b = 5, row = 8, col = 0\<rparr>,
            \<lparr>id_b = ''e'', value_b = 1, row = 8, col = 2\<rparr>],
           [\<lparr>id_b = ''f'', value_b = 2, row = 9, col = 0\<rparr>,
            \<lparr>id_b = ''g'', value_b = 9, row = 9, col = 2\<rparr>,
            \<lparr>id_b = ''h'', value_b = 4, row = 9, col = 5\<rparr>]]"
    by code_simp
  from C1_match_awards_and_clears[of ?s "1 / 2" exDraw, OF ok sum pos]
  obtain s' g1 where r: "checkSumEffect ?s (1 / 2) exDraw = Some s'"
    "score s' = score ?s + target ?s * int (length (selectedIds ?s))"
    "selectedIds s' = []" "clearAndGravity (grid ?s) (selectedIds ?s) = Some g1"
    "mode ?s = Time \<longrightarrow> grid s' = g1"
    "distinct (map id_b (concat (grid ?s))) \<and> distinct (selectedIds ?s) \<and>
     set (selectedIds ?s) \<subseteq> id_b ` set (concat (grid ?s)) \<longrightarrow>
       length (filter (\<lambda>b. id_b b \<in> set (selectedIds ?s)) (concat (grid ?s)))
         = length (selectedIds ?s)"
    by blast
  have cnt: "length (filter (\<lambda>b. id_b b \<in> set [''a'', ''d'']) (concat exGrid))
             = length [''a'', ''d'']"
    using r(6)[unfolded sel, THEN mp, OF conjI[OF d1 conjI[OF d2 sub]]] .
  have sc: "score s' = score ?s + 20" using r(2) unfolding sel by simp
  have gs: "Some (grid s') = clearAndGravity exGrid [''a'', ''d'']"
    using r(4,5) unfolding sel by simp
  have ids: "map id_b (concat (grid s')) = [''c'', ''b'', ''e'', ''f'', ''g'', ''h'']"
    using gs cg by auto
  have time: "\<exists>s'. checkSumEffect ?s (1 / 2) exDraw = Some s' \<and>
         score s' = score ?s + 20 \<and> selectedIds s' = [] \<and>
         Some (grid s') = clearAndGravity exGrid [''a'', ''d''] \<and>
         map id_b (concat (grid s')) = [''c'', ''b'', ''e'', ''f'', ''g'', ''h'']"
    by (intro exI[of _ s'] conjI) (fact r(1) sc r(3) gs ids)+
  from C1_match_awards_and_clears[of ?c "1 / 2" exDraw, OF ok sum pos]
  obtain c' h1 where c: "checkSumEffect ?c (1 / 2) exDraw = Some c'"
    "score c' = score ?c + target ?c * int (length (selectedIds ?c))"
    "selectedIds c' = []" "clearAndGravity (grid ?c) (selectedIds ?c) = Some h1"
    "mode ?c = Classic \<longrightarrow> addRowGrid h1 exDraw = Some (grid c')"
    by blast
  have sc': "score c' = score ?c + 20" using c(2) unfolding sel by simp
  have ch: "clearAndGravity exGrid [''a'', ''d''] = Some h1" using c(4) unfolding sel .
  have ar: "addRowGrid h1 exDraw = Some (grid c')" using c(5) unfolding sel by simp
  have classic: "\<exists>s' g1. checkSumEffect ?c (1 / 2) exDraw = Some s' \<and>
         score s' = score ?c + 20 \<and> selectedIds s' = [] \<and>
         clearAndGravity exGrid [''a'', ''d''] = Some g1 \<and>
         addRowGrid g1 exDraw = Some (grid s')"
    by (intro exI[of _ c'] exI[of _ h1] conjI) (fact c(1) sc' c(3) ch ar)+
  have sum10: "currentSum (grid ?s) (selectedIds ?s) = 10" using sum[of Time] sel(3) by simp
  show ?thesis
    by (intro conjI) (fact ok sum10 sel(3) vals d1 d2 sub cnt time classic)+
qed

text \<open>
  C2. After the sum effect has run with the selected sum equal to the positive target,
  no block of the grid carries a selected identifier, and the grid is settled: every
  block above the bottom row has a block right below it in its column. This holds for
  the grid that clearing and gravity produce and for the grid of the new state; in
  classic mode, where \<open>addRow\<close> follows, the identifiers drawn for the new row are
  taken to differ from the selected ones.
\<close>

theorem C2_cleared_and_settled:
  assumes "gridOk (grid s)"
    and "currentSum (grid s) (selectedIds s) = target s" and "0 < target s"
    and "mode s = Classic \<longrightarrow> (\<forall>c\<in>{0..<GRID_COLS}. fst (rnd c) \<notin> set (selectedIds s))"
  shows "\<exists>s' g1.
           clearAndGravity (grid s) (selectedIds s) = Some g1 \<and>
           (\<forall>b\<in>set (concat g1). id_b b \<notin> set (selectedIds s)) \<and> settled g1 \<and>
           checkSumEffect s u rnd = Some s' \<and>
           (\<forall>b\<in>set (concat (grid s')). id_b b \<notin> set (selectedIds s)) \<and> settled (grid s')"
proof -
  let ?sel = "selectedIds s"
  let ?g1 = "map (gravityRow (grid s) ?sel) [0..<GRID_ROWS]"
  have cg: "clearAndGravity (grid s) ?sel = Some ?g1"
    using assms(1) by (rule clearAndGravity_gridOk)
  have ids1: "id_b b \<notin> set ?sel" if "b \<in> set (concat ?g1)" for b
    using that by (rule gravity_origin) (metis Block.select_convs(1) Block.surjective Block.update_convs(3))
  have st1: "settled ?g1" by (rule settled_gravity)
  from checkSumEffect_match[OF assms(1-3), of rnd u] obtain g2 where g2:
    "mode s = Time \<longrightarrow> g2 = ?g1"
    "mode s = Classic \<longrightarrow> addRowGrid ?g1 rnd = Some g2"
    "checkSumEffect s u rnd =
       Some (s\<lparr>score := score s + target s * int (length ?sel),
               grid := g2,
               selectedIds := [],
               target := generateTarget (mode s) (level s) u,
               timeLeft := TIME_LIMIT,
               level := (if score s > level s * 500 then level s + 1 else level s)\<rparr>)"
    by blast
  have g2_ok: "(\<forall>b\<in>set (concat g2). id_b b \<notin> set ?sel) \<and> settled g2"
  proof (cases "mode s")
    case Time
    then show ?thesis using g2(1) ids1 st1 by simp
  next
    case Classic
    then have add: "addRowGrid ?g1 rnd = Some g2" using g2(2) by simp
    have ok1: "gridOk ?g1" by (rule gridOk_gravity)
    have len1: "length ?g1 = GRID_ROWS" by simp
    have "id_b b' \<notin> set ?sel" if "b' \<in> set (concat g2)" for b'
    proof -
      from that consider
          (shift) r b where "r + 1 < GRID_ROWS" "b \<in> set (?g1 ! (r + 1))" "b' = b\<lparr>row := r\<rparr>"
        | (new) "b' \<in> set (createRow (GRID_ROWS - 1) rnd)"
        unfolding addRowGrid_blocks[OF len1 add] by blast
      then show ?thesis
      proof cases
        case shift
        have "b \<in> set (concat ?g1)"
          unfolding in_concat_nth using shift(1,2) by (intro exI[of _ "r + 1"]) simp
        then show ?thesis using ids1 shift(3) by simp
      next
        case new
        then obtain c where "c < GRID_COLS" "id_b b' = fst (rnd c)"
          by (auto simp: createRow_block)
        then show ?thesis using assms(4) Classic by simp
      qed
    qed
    moreover have "settled g2" using ok1 st1 add by (rule settled_addRowGrid)
    ultimately show ?thesis by blast
  qed
  show ?thesis
    apply (rule exI[of _ "s\<lparr>score := score s + target s * int (length ?sel),
               grid := g2,
               selectedIds := [],
               target := generateTarget (mode s) (level s) u,
               timeLeft := TIME_LIMIT,
               level := (if score s > level s * 500 then level s + 1 else level s)\<rparr>"])
    apply (rule exI[of _ ?g1])
    using cg ids1 st1 g2(3) g2_ok by simp
qed

theorem C2_example_classic:
  "gridOk (grid (exState Classic [''a'', ''d''])) \<and>
   currentSum (grid (exState Classic [''a'', ''d''])) (selectedIds (exState Classic [''a'', ''d'']))
     = target (exState Classic [''a'', ''d'']) \<and>
   0 < target (exState Classic [''a'', ''d'']) \<and>
   list_all (\<lambda>c. fst (exDraw c) \<notin> set [''a'', ''d'']) [0..<GRID_COLS] \<and>
   (\<exists>s'. checkSumEffect (exState Classic [''a'', ''d'']) (1 / 2) exDraw = Some s' \<and>
         list_all (\<lambda>b. id_b b \<notin> set [''a'', ''d'']) (concat (grid s')) \<and>
         settled (grid s') \<and>
         map id_b (concat (grid s'))
           = [''c'', ''b'', ''e'', ''f'', ''g'', ''h'',
              ''n'', ''nn'', ''nnn'', ''nnnn'', ''nnnnn'', ''nnnnnn''])"
proof -
  let ?s = "exState Classic [''a'', ''d'']"
  have sel: "grid ?s = exGrid" "selectedIds ?s = [''a'', ''d'']" "target ?s = 10"
    "mode ?s = Classic"
    by (simp_all add: exState_def)
  have ok: "gridOk (grid ?s)" unfolding sel by code_simp
  have sum: "currentSum (grid ?s) (selectedIds ?s) = target ?s" unfolding sel by code_simp
  have pos: "0 < target ?s" unfolding sel by simp
  have fresh: "list_all (\<lambda>c. fst (exDraw c) \<notin> set [''a'', ''d'']) [0..<GRID_COLS]"
    by code_simp
  then have fresh': "mode ?s = Classic \<longrightarrow>
                     (\<forall>c\<in>{0..<GRID_COLS}. fst (exDraw c) \<notin> set (selectedIds ?s))"
    unfolding sel by (simp add: list_all_iff)
  have ev: "map_option (\<lambda>s'. map id_b (concat (grid s'))) (checkSumEffect ?s (1 / 2) exDraw)
            = Some [''c'', ''b'', ''e'', ''f'', ''g'', ''h'',
                    ''n'', ''nn'', ''nnn'', ''nnnn'', ''nnnnn'', ''nnnnnn'']"
    by code_simp
  from C2_cleared_and_settled[of ?s exDraw "1 / 2", OF ok sum pos fresh']
  obtain s' where r: "checkSumEffect ?s (1 / 2) exDraw = Some s'"
    "\<forall>b\<in>set (concat (grid s')). id_b b \<notin> set (selectedIds ?s)" "settled (grid s')"
    by blast
  have la: "list_all (\<lambda>b. id_b b \<notin> set [''a'', ''d'']) (concat (grid s'))"
    using r(2) unfolding sel list_all_iff by simp
  have ids: "map id_b (concat (grid s'))
           = [''c'', ''b'', ''e'', ''f'', ''g'', ''h'',
              ''n'', ''nn'', ''nnn'', ''nnnn'', ''nnnnn'', ''nnnnnn'']"
    using ev r(1) by simp
  show ?thesis
    by (intro conjI exI[of _ s']) (fact ok sum pos fresh r(1) r(3) la ids)+
qed

section \<open>The grid invariant\<close>

lemma checkSumEffect_cases:
  assumes "checkSumEffect s u rnd = Some s'"
  obtains (match) g1 g2 where "clearAndGravity (grid s) (selectedIds s) = Some g1"
      "mode s = Time \<longrightarrow> g2 = g1" "mode s = Classic \<longrightarrow> addRowGrid g1 rnd = Some g2"
      "grid s' = g2" "selectedIds s' = []"
    | (rest) "grid s' = grid s" "selectedIds s' = [] \<or> s' = s"
proof (cases "currentSum (grid s) (selectedIds s) = target s \<and> target s > 0")
  case True
  then obtain g1 g2 where g: "clearAndGravity (grid s) (selectedIds s) = Some g1"
    "(if mode s = Classic then addRowGrid g1 rnd else Some g1) = Some g2"
    "grid s' = g2" "selectedIds s' = []"
    using assms by (auto simp: checkSumEffect_def Let_def split: option.splits)
  have "mode s = Time \<longrightarrow> g2 = g1" "mode s = Classic \<longrightarrow> addRowGrid g1 rnd = Some g2"
    using g(2) by (auto split: if_splits)
  then show thesis using g match by blast
next
  case False
  then have "grid s' = grid s" "selectedIds s' = [] \<or> s' = s"
    using assms by (auto simp: checkSumEffect_def split: if_splits)
  then show thesis by (rule rest)
qed

text \<open>
  C8. Starting a game yields, and clearing with gravity, adding a row and the whole sum
  effect preserve, a well-formed grid (\<open>gridOk\<close>) whose values lie between 1 and
  \<open>MAX_VALUE = 9\<close>, given draws in \<open>[0, 1)\<close>; the three operations return a grid on
  such input. In a well-formed grid no two blocks share a position \<open>(row, col)\<close>.
\<close>

theorem C8_grid_invariant:
  "((\<forall>r\<in>{0..<GRID_ROWS}. drawOk (rnds r)) \<longrightarrow>
      gridOk (grid (startGame m rnds u s0)) \<and> valuesInRange (grid (startGame m rnds u s0))) \<and>
   (gridOk g \<and> valuesInRange g \<longrightarrow>
      (\<exists>g'. clearAndGravity g sel = Some g' \<and> gridOk g' \<and> valuesInRange g')) \<and>
   (gridOk g \<and> valuesInRange g \<and> drawOk rnd \<longrightarrow>
      (\<exists>g'. addRowGrid g rnd = Some g' \<and> gridOk g' \<and> valuesInRange g')) \<and>
   (gridOk (grid s) \<and> valuesInRange (grid s) \<and> drawOk rnd \<longrightarrow>
      (\<exists>s'. checkSumEffect s u rnd = Some s' \<and> gridOk (grid s') \<and> valuesInRange (grid s'))) \<and>
   (gridOk g \<longrightarrow> noSharedPosition g) \<and>
   MAX_VALUE = 9"
proof (intro conjI impI)
  assume "\<forall>r\<in>{0..<GRID_ROWS}. drawOk (rnds r)"
  then show "valuesInRange (grid (startGame m rnds u s0))"
    by (rule valuesInRange_startGame)
next
  show "gridOk (grid (startGame m rnds u s0))" by (rule gridOk_startGame)
next
  assume "gridOk g \<and> valuesInRange g"
  then show "\<exists>g'. clearAndGravity g sel = Some g' \<and> gridOk g' \<and> valuesInRange g'"
    using clearAndGravity_gridOk gridOk_gravity valuesInRange_gravity by blast
next
  assume a: "gridOk g \<and> valuesInRange g \<and> drawOk rnd"
  then have len: "length g = GRID_ROWS" by (simp add: gridOk_def)
  then obtain g' where g': "addRowGrid g rnd = Some g'"
    using addRowGrid_gridOk_eq by blast
  then show "\<exists>g'. addRowGrid g rnd = Some g' \<and> gridOk g' \<and> valuesInRange g'"
    using a len gridOk_addRowGrid valuesInRange_addRowGrid by blast
next
  assume a: "gridOk (grid s) \<and> valuesInRange (grid s) \<and> drawOk rnd"
  let ?g1 = "map (gravityRow (grid s) (selectedIds s)) [0..<GRID_ROWS]"
  have cg: "clearAndGravity (grid s) (selectedIds s) = Some ?g1"
    using a by (simp add: clearAndGravity_gridOk)
  have ok1: "gridOk ?g1" "valuesInRange ?g1" "length ?g1 = GRID_ROWS"
    using a by (simp_all add: gridOk_gravity valuesInRange_gravity)
  obtain g2 where g2: "addRowGrid ?g1 rnd = Some g2"
    using addRowGrid_gridOk_eq[OF ok1(3)] by blast
  have ok2: "gridOk g2" "valuesInRange g2"
    using gridOk_addRowGrid[OF ok1(1) g2] valuesInRange_addRowGrid[OF ok1(3) ok1(2) _ g2] a
    by simp_all
  have "\<exists>s'. checkSumEffect s u rnd = Some s'"
  proof (cases "currentSum (grid s) (selectedIds s) = target s \<and> target s > 0")
    case True
    then show ?thesis using checkSumEffect_match[of s rnd u] a by blast
  next
    case False
    then show ?thesis by (auto simp: checkSumEffect_def)
  qed
  then obtain s' where s': "checkSumEffect s u rnd = Some s'" by blast
  then have "gridOk (grid s') \<and> valuesInRange (grid s')"
  proof (cases rule: checkSumEffect_cases)
    case (match g1 g2')
    then have "g1 = ?g1" using cg by simp
    then show ?thesis using match ok1 ok2 g2 by (cases "mode s") auto
  next
    case rest
    then show ?thesis using a by simp
  qed
  with s' show "\<exists>s'. checkSumEffect s u rnd = Some s' \<and> gridOk (grid s') \<and> valuesInRange (grid s')"
    by blast
next
  assume "gridOk g"
  then show "noSharedPosition g" by (rule gridOk_noSharedPosition)
next
  show "MAX_VALUE = 9" by (simp add: MAX_VALUE_def)
qed

theorem C8_example:
  "gridOk exGrid \<and> valuesInRange exGrid \<and> drawOk exDraw \<and>
   gridOk (grid (startGame Time (\<lambda>r. exDraw) (1 / 2) initialState)) \<and>
   valuesInRange (grid (startGame Time (\<lambda>r. exDraw) (1 / 2) initialState)) \<and>
   (\<exists>g'. clearAndGravity exGrid [''a'', ''d''] = Some g' \<and> gridOk g' \<and> valuesInRange g'
         \<and> noSharedPosition g') \<and>
   (\<exists>g'. addRowGrid exGrid exDraw = Some g' \<and> gridOk g' \<and> valuesInRange g'
         \<and> noSharedPosition g') \<and>
   (\<exists>s'. checkSumEffect (exState Classic [''a'', ''d'']) (1 / 2) exDraw = Some s' \<and>
         gridOk (grid s') \<and> valuesInRange (grid s') \<and> noSharedPosition (grid s')) \<and>
   noSharedPosition exGrid"
proof -
  have ok: "gridOk exGrid" by code_simp
  have vals: "valuesInRange exGrid" by code_simp
  have draw: "drawOk exDraw" by (simp add: drawOk_def exDraw_def)
  have draws: "\<forall>r\<in>{0..<GRID_ROWS}. drawOk ((\<lambda>r. exDraw) r)" using draw by simp
  have g: "grid (exState Classic [''a'', ''d'']) = exGrid" by (simp add: exState_def)
  have ok': "gridOk (grid (exState Classic [''a'', ''d'']))"
    and vals': "valuesInRange (grid (exState Classic [''a'', ''d'']))"
    unfolding g by (fact ok vals)+
  note C8 = C8_grid_invariant[of "\<lambda>r. exDraw" Time "1 / 2" initialState exGrid "[''a'', ''d'']"
              exDraw "exState Classic [''a'', ''d'']"]
  note c1 = C8[THEN conjunct1, THEN mp, OF draws]
  note c2 = C8[THEN conjunct2, THEN conjunct1, THEN mp, OF conjI[OF ok vals]]
  note c3 = C8[THEN conjunct2, THEN conjunct2, THEN conjunct1, THEN mp,
               OF conjI[OF ok conjI[OF vals draw]]]
  note c4 = C8[THEN conjunct2, THEN conjunct2, THEN conjunct2, THEN conjunct1, THEN mp,
               OF conjI[OF ok' conjI[OF vals' draw]]]
  have nsp: "noSharedPosition x" if "gridOk x" for x
    using C8_grid_invariant[of "\<lambda>r. exDraw" Time "1 / 2" initialState x "[]"
              exDraw "exState Classic []"] that by simp
  have 1: "gridOk (grid (startGame Time (\<lambda>r. exDraw) (1 / 2) initialState))"
    "valuesInRange (grid (startGame Time (\<lambda>r. exDraw) (1 / 2) initialState))"
    using c1 by simp_all
  from c2 obtain g2 where g2: "clearAndGravity exGrid [''a'', ''d''] = Some g2" "gridOk g2"
    "valuesInRange g2"
    by (elim exE conjE)
  have 2: "\<exists>g'. clearAndGravity exGrid [''a'', ''d''] = Some g' \<and> gridOk g' \<and> valuesInRange g'
         \<and> noSharedPosition g'"
    by (intro exI[of _ g2] conjI) (fact g2 nsp[OF g2(2)])+
  from c3 obtain g3 where g3: "addRowGrid exGrid exDraw = Some g3" "gridOk g3"
    "valuesInRange g3"
    by (elim exE conjE)
  have 3: "\<exists>g'. addRowGrid exGrid exDraw = Some g' \<and> gridOk g' \<and> valuesInRange g'
         \<and> noSharedPosition g'"
    by (intro exI[of _ g3] conjI) (fact g3 nsp[OF g3(2)])+
  from c4 obtain s4 where s4: "checkSumEffect (exState Classic [''a'', ''d'']) (1 / 2) exDraw = Some s4"
    "gridOk (grid s4)" "valuesInRange (grid s4)"
    by (elim exE conjE)
  have 4: "\<exists>s'. checkSumEffect (exState Classic [''a'', ''d'']) (1 / 2) exDraw = Some s' \<and>
         gridOk (grid s') \<and> valuesInRange (grid s') \<and> noSharedPosition (grid s')"
    by (intro exI[of _ s4] conjI) (fact s4 nsp[OF s4(2)])+
  have 5: "noSharedPosition exGrid" using ok by (rule nsp)
  show ?thesis
    by (intro conjI) (fact ok vals draw 1 2 3 4 5)+
qed

section \<open>What gravity does to the blocks that stay\<close>

lemma id_b_row_update [simp]: "id_b (b\<lparr>row := r\<rparr>) = id_b b"
  by simp

text \<open>
  C9. Let the identifiers of the grid be unique, and let two blocks that are not
  selected stand in the same column, the first above the second (its row index is
  smaller). After clearing and gravity both are in the grid, and whichever blocks of
  the result carry their identifiers, the first is still above the second.
\<close>

theorem C9_gravity_keeps_vertical_order:
  assumes "clearAndGravity g sel = Some g'"
    and "distinct (map id_b (concat g))"
    and "a \<in> set (concat g)" and "b \<in> set (concat g)"
    and "id_b a \<notin> set sel" and "id_b b \<notin> set sel"
    and "col a = col b" and "row a < row b"
  shows "(\<exists>a'\<in>set (concat g'). \<exists>b'\<in>set (concat g'). id_b a' = id_b a \<and> id_b b' = id_b b) \<and>
         (\<forall>a'\<in>set (concat g'). \<forall>b'\<in>set (concat g').
            id_b a' = id_b a \<and> id_b b' = id_b b \<longrightarrow> row a' < row b')"
proof -
  from assms(1) have ok: "gravityOk g sel" and g': "g' = map (gravityRow g sel) [0..<GRID_ROWS]"
    using clearAndGravity_SomeD by blast+
  obtain ra where ra: "ra < GRID_ROWS" "a\<lparr>row := ra\<rparr> \<in> set (gravityRow g sel ra)"
    using gravity_survivor[OF ok assms(3) assms(5)] by blast
  obtain rb where rb: "rb < GRID_ROWS" "b\<lparr>row := rb\<rparr> \<in> set (gravityRow g sel rb)"
    using gravity_survivor[OF ok assms(4) assms(6)] by blast
  have "a\<lparr>row := ra\<rparr> \<in> set (concat g')" "b\<lparr>row := rb\<rparr> \<in> set (concat g')"
    unfolding g' in_concat_nth using ra rb by (auto intro: exI[of _ ra] exI[of _ rb])
  then have ex: "\<exists>a'\<in>set (concat g'). \<exists>b'\<in>set (concat g'). id_b a' = id_b a \<and> id_b b' = id_b b"
    by (intro bexI[of _ "a\<lparr>row := ra\<rparr>"] bexI[of _ "b\<lparr>row := rb\<rparr>"]) simp_all
  have "row a' < row b'"
    if "a' \<in> set (concat g')" "b' \<in> set (concat g')" "id_b a' = id_b a" "id_b b' = id_b b"
    for a' b'
    using gravity_order[OF assms(2) assms(3) assms(4) assms(7) assms(8), of a' sel b'] that
    unfolding g' by simp
  with ex show ?thesis by blast
qed

theorem C9_example:
  "clearAndGravity exGrid [''a'', ''d'']
     = Some [[], [], [], [], [], [], [],
             [\<lparr>id_b = ''c'', value_b = 7, row = 7, col = 2\<rparr>],
             [\<lparr>id_b = ''b'', value_b = 5, row = 8, col = 0\<rparr>,
              \<lparr>id_b = ''e'', value_b = 1, row = 8, col = 2\<rparr>],
             [\<lparr>id_b = ''f'', value_b = 2, row = 9, col = 0\<rparr>,
              \<lparr>id_b = ''g'', value_b = 9, row = 9, col = 2\<rparr>,
              \<lparr>id_b = ''h'', value_b = 4, row = 9, col = 5\<rparr>]] \<and>
   distinct (map id_b (concat exGrid)) \<and>
   \<lparr>id_b = ''b'', value_b = 5, row = 7, col = 0\<rparr> \<in> set (concat exGrid) \<and>
   \<lparr>id_b = ''f'', value_b = 2, row = 9, col = 0\<rparr> \<in> set (concat exGrid) \<and>
   row \<lparr>id_b = ''b'', value_b = 5, row = 8, col = 0\<rparr>
     < row \<lparr>id_b = ''f'', value_b = 2, row = 9, col = 0\<rparr>"
proof -
  let ?a = "\<lparr>id_b = ''b'', value_b = 5, row = 7, col = 0\<rparr>"
  let ?b = "\<lparr>id_b = ''f'', value_b = 2, row = 9, col = 0\<rparr>"
  let ?a' = "\<lparr>id_b = ''b'', value_b = 5, row = 8, col = 0\<rparr>"
  let ?g' = "[[], [], [], [], [], [], [],
             [\<lparr>id_b = ''c'', value_b = 7, row = 7, col = 2\<rparr>],
             [\<lparr>id_b = ''b'', value_b = 5, row = 8, col = 0\<rparr>,
              \<lparr>id_b = ''e'', value_b = 1, row = 8, col = 2\<rparr>],
             [\<lparr>id_b = ''f'', value_b = 2, row = 9, col = 0\<rparr>,
              \<lparr>id_b = ''g'', value_b = 9, row = 9, col = 2\<rparr>,
              \<lparr>id_b = ''h'', value_b = 4, row = 9, col = 5\<rparr>]]"
  have cg: "clearAndGravity exGrid [''a'', ''d''] = Some ?g'" by code_simp
  have d: "distinct (map id_b (concat exGrid))" by code_simp
  have a: "?a \<in> set (concat exGrid)" and b: "?b \<in> set (concat exGrid)"
    by (simp_all add: exGrid_def)
  have sel: "id_b ?a \<notin> set [''a'', ''d'']" "id_b ?b \<notin> set [''a'', ''d'']" by simp_all
  have pos: "col ?a = col ?b" "row ?a < row ?b" by simp_all
  have a': "?a' \<in> set (concat ?g')" "?b \<in> set (concat ?g')" by simp_all
  have lt: "row ?a' < row ?b"
    using C9_gravity_keeps_vertical_order[OF cg d a b sel pos, THEN conjunct2,
            THEN bspec, OF a'(1), THEN bspec, OF a'(2)]
    by simp
  show ?thesis
    by (intro conjI) (fact cg d a b lt)+
qed

text \<open>
  C10. After a successful match every block that was not selected is in the grid that
  clearing and gravity produce, with identity, value and column unchanged and a row
  below \<open>GRID_ROWS\<close>; every block of that grid is such a block; and counted with
  multiplicity the blocks are the same. The grid of the new state is that grid in
  time mode. In classic mode \<open>addRow\<close> follows, and when the top row of the old grid
  was empty (as in every playing state at rest) every block that was not selected is
  in the grid of the new state as well, with only its row changed.
\<close>

theorem C10_unselected_blocks_survive:
  assumes "gridOk (grid s)"
    and "currentSum (grid s) (selectedIds s) = target s" and "0 < target s"
  shows "\<exists>s' g1.
           checkSumEffect s u rnd = Some s' \<and>
           clearAndGravity (grid s) (selectedIds s) = Some g1 \<and>
           (\<forall>b\<in>set (concat (grid s)). id_b b \<notin> set (selectedIds s) \<longrightarrow>
              (\<exists>r<GRID_ROWS. b\<lparr>row := r\<rparr> \<in> set (concat g1))) \<and>
           (\<forall>b'\<in>set (concat g1). \<exists>b\<in>set (concat (grid s)).
              id_b b \<notin> set (selectedIds s) \<and> b' = b\<lparr>row := row b'\<rparr>) \<and>
           mset (map tileOf (concat g1))
             = mset (map tileOf (filter (\<lambda>b. id_b b \<notin> set (selectedIds s)) (concat (grid s)))) \<and>
           (mode s = Time \<longrightarrow> grid s' = g1) \<and>
           (grid s ! 0 = [] \<longrightarrow>
              (\<forall>b\<in>set (concat (grid s)). id_b b \<notin> set (selectedIds s) \<longrightarrow>
                 (\<exists>r<GRID_ROWS. b\<lparr>row := r\<rparr> \<in> set (concat (grid s')))))"
proof -
  let ?sel = "selectedIds s"
  let ?g1 = "map (gravityRow (grid s) ?sel) [0..<GRID_ROWS]"
  have gok: "gravityOk (grid s) ?sel" using assms(1) by (rule gridOk_gravityOk)
  have cg: "clearAndGravity (grid s) ?sel = Some ?g1"
    using assms(1) by (rule clearAndGravity_gridOk)
  have len1: "length ?g1 = GRID_ROWS" by simp
  from checkSumEffect_match[OF assms(1-3), of rnd u] obtain g2 where g2:
    "mode s = Time \<longrightarrow> g2 = ?g1"
    "mode s = Classic \<longrightarrow> addRowGrid ?g1 rnd = Some g2"
    "checkSumEffect s u rnd =
       Some (s\<lparr>score := score s + target s * int (length ?sel),
               grid := g2,
               selectedIds := [],
               target := generateTarget (mode s) (level s) u,
               timeLeft := TIME_LIMIT,
               level := (if score s > level s * 500 then level s + 1 else level s)\<rparr>)"
    by blast
  have surv: "\<exists>r<GRID_ROWS. b\<lparr>row := r\<rparr> \<in> set (gravityRow (grid s) ?sel r)"
    if "b \<in> set (concat (grid s))" "id_b b \<notin> set ?sel" for b
    using gravity_survivor[OF gok that] by blast
  have surv1: "\<exists>r<GRID_ROWS. b\<lparr>row := r\<rparr> \<in> set (concat ?g1)"
    if "b \<in> set (concat (grid s))" "id_b b \<notin> set ?sel" for b
  proof -
    from surv[OF that] obtain r where "r < GRID_ROWS"
      "b\<lparr>row := r\<rparr> \<in> set (gravityRow (grid s) ?sel r)" by blast
    then have "r < GRID_ROWS \<and> b\<lparr>row := r\<rparr> \<in> set (concat ?g1)"
      unfolding in_concat_nth by (auto intro: exI[of _ r])
    then show ?thesis by blast
  qed
  have orig: "\<exists>b\<in>set (concat (grid s)). id_b b \<notin> set ?sel \<and> b' = b\<lparr>row := row b'\<rparr>"
    if "b' \<in> set (concat ?g1)" for b'
    using that by (rule gravity_origin) blast
  have tiles: "mset (map tileOf (concat ?g1))
      = mset (map tileOf (filter (\<lambda>b. id_b b \<notin> set ?sel) (concat (grid s))))"
    using gravity_tiles[OF gok] by (simp add: unselected_def)
  have surv2: "\<exists>r<GRID_ROWS. b\<lparr>row := r\<rparr> \<in> set (concat g2)"
    if top: "grid s ! 0 = []" and b: "b \<in> set (concat (grid s))" "id_b b \<notin> set ?sel" for b
  proof (cases "mode s")
    case Time
    then show ?thesis using surv1[OF b] g2(1) by simp
  next
    case Classic
    then have add: "addRowGrid ?g1 rnd = Some g2" using g2(2) by simp
    from surv[OF b] obtain r where r: "r < GRID_ROWS"
      "b\<lparr>row := r\<rparr> \<in> set (gravityRow (grid s) ?sel r)" by blast
    have "gravityRow (grid s) ?sel 0 = []"
      using assms(1) top by (rule gravity_top_row_empty)
    with r(2) have "r \<noteq> 0" by (cases r) auto
    then obtain r' where r': "r = r' + 1" by (cases r) auto
    then have "b\<lparr>row := r\<rparr> \<in> set (?g1 ! (r' + 1))" using r by simp
    then have "(b\<lparr>row := r\<rparr>)\<lparr>row := r'\<rparr> \<in> set (concat g2)"
      unfolding addRowGrid_blocks[OF len1 add] using r(1) r'
      by (intro disjI1 exI[of _ r'] exI[of _ "b\<lparr>row := r\<rparr>"]) simp
    then have "b\<lparr>row := r'\<rparr> \<in> set (concat g2)" by simp
    moreover have "r' < GRID_ROWS" using r(1) r' by simp
    ultimately show ?thesis by blast
  qed
  show ?thesis
    apply (rule exI[of _ "s\<lparr>score := score s + target s * int (length ?sel),
               grid := g2,
               selectedIds := [],
               target := generateTarget (mode s) (level s) u,
               timeLeft := TIME_LIMIT,
               level := (if score s > level s * 500 then level s + 1 else level s)\<rparr>"])
    apply (rule exI[of _ ?g1])
    apply (intro conjI)
          apply (rule g2(3))
         apply (rule cg)
    using surv1 apply blast
    using orig apply blast
      apply (rule tiles)
    using g2(1) apply simp
    using surv2 apply simp
    done
qed

theorem C10_example_classic:
  "gridOk (grid (exState Classic [''a'', ''d''])) \<and>
   currentSum (grid (exState Classic [''a'', ''d''])) (selectedIds (exState Classic [''a'', ''d'']))
     = target (exState Classic [''a'', ''d'']) \<and>
   0 < target (exState Classic [''a'', ''d'']) \<and>
   grid (exState Classic [''a'', ''d'']) ! 0 = [] \<and>
   \<lparr>id_b = ''b'', value_b = 5, row = 7, col = 0\<rparr> \<in> set (concat exGrid) \<and>
   (\<exists>s'. checkSumEffect (exState Time [''a'', ''d'']) (1 / 2) exDraw = Some s' \<and>
         Some (grid s') = clearAndGravity exGrid [''a'', ''d''] \<and>
         mset (map tileOf (concat (grid s')))
           = mset [(''b'', 5, 0), (''c'', 7, 2), (''e'', 1, 2), (''f'', 2, 0), (''g'', 9, 2),
                   (''h'', 4, 5)]) \<and>
   (\<exists>s' r. checkSumEffect (exState Classic [''a'', ''d'']) (1 / 2) exDraw = Some s' \<and>
           \<lparr>id_b = ''b'', value_b = 5, row = r, col = 0\<rparr> \<in> set (concat (grid s')) \<and>
           map tileOf (concat (grid s')) =
             [(''c'', 7, 2), (''b'', 5, 0), (''e'', 1, 2), (''f'', 2, 0), (''g'', 9, 2),
              (''h'', 4, 5), (''n'', 5, 0), (''nn'', 5, 1), (''nnn'', 5, 2), (''nnnn'', 5, 3),
              (''nnnnn'', 5, 4), (''nnnnnn'', 5, 5)])"
proof -
  let ?s = "exState Classic [''a'', ''d'']"
  let ?b = "\<lparr>id_b = ''b'', value_b = 5, row = 7, col = 0\<rparr>"
  have sel: "grid ?s = exGrid" "selectedIds ?s = [''a'', ''d'']" "target ?s = 10"
    "mode ?s = Classic"
    by (simp_all add: exState_def)
  have ok: "gridOk (grid ?s)" unfolding sel by code_simp
  have sum: "currentSum (grid ?s) (selectedIds ?s) = target ?s" unfolding sel by code_simp
  have pos: "0 < target ?s" unfolding sel by simp
  have top: "grid ?s ! 0 = []" unfolding sel by (simp add: exGrid_def)
  have b: "?b \<in> set (concat exGrid)" by (simp add: exGrid_def)
  have ev: "map_option (\<lambda>s'. map tileOf (concat (grid s'))) (checkSumEffect ?s (1 / 2) exDraw)
            = Some [(''c'', 7, 2), (''b'', 5, 0), (''e'', 1, 2), (''f'', 2, 0), (''g'', 9, 2),
              (''h'', 4, 5), (''n'', 5, 0), (''nn'', 5, 1), (''nnn'', 5, 2), (''nnnn'', 5, 3),
              (''nnnnn'', 5, 4), (''nnnnnn'', 5, 5)]"
    by code_simp
  from C10_unselected_blocks_survive[of ?s "1 / 2" exDraw, OF ok sum pos]
  obtain s' where r: "checkSumEffect ?s (1 / 2) exDraw = Some s'"
    "grid ?s ! 0 = [] \<longrightarrow>
       (\<forall>b\<in>set (concat (grid ?s)). id_b b \<notin> set (selectedIds ?s) \<longrightarrow>
          (\<exists>r<GRID_ROWS. b\<lparr>row := r\<rparr> \<in> set (concat (grid s'))))"
    by blast
  have "\<exists>r<GRID_ROWS. ?b\<lparr>row := r\<rparr> \<in> set (concat (grid s'))"
    using r(2)[THEN mp, OF top, THEN bspec, of ?b] b unfolding sel by simp
  then obtain r where rr: "\<lparr>id_b = ''b'', value_b = 5, row = r, col = 0\<rparr> \<in> set (concat (grid s'))"
    by auto
  have tl: "map tileOf (concat (grid s')) =
             [(''c'', 7, 2), (''b'', 5, 0), (''e'', 1, 2), (''f'', 2, 0), (''g'', 9, 2),
              (''h'', 4, 5), (''n'', 5, 0), (''nn'', 5, 1), (''nnn'', 5, 2), (''nnnn'', 5, 3),
              (''nnnnn'', 5, 4), (''nnnnnn'', 5, 5)]"
    using ev r(1) by simp
  have classic: "\<exists>s' r. checkSumEffect ?s (1 / 2) exDraw = Some s' \<and>
           \<lparr>id_b = ''b'', value_b = 5, row = r, col = 0\<rparr> \<in> set (concat (grid s')) \<and>
           map tileOf (concat (grid s')) =
             [(''c'', 7, 2), (''b'', 5, 0), (''e'', 1, 2), (''f'', 2, 0), (''g'', 9, 2),
              (''h'', 4, 5), (''n'', 5, 0), (''nn'', 5, 1), (''nnn'', 5, 2), (''nnnn'', 5, 3),
              (''nnnnn'', 5, 4), (''nnnnnn'', 5, 5)]"
    by (intro exI[of _ s'] exI[of _ r] conjI) (fact r(1) rr tl)+
  let ?t = "exState Time [''a'', ''d'']"
  have selt: "grid ?t = exGrid" "selectedIds ?t = [''a'', ''d'']" "target ?t = 10"
    "mode ?t = Time"
    by (simp_all add: exState_def)
  have okt: "gridOk (grid ?t)" using ok unfolding sel selt .
  have sumt: "currentSum (grid ?t) (selectedIds ?t) = target ?t" using sum unfolding sel selt .
  have post: "0 < target ?t" unfolding selt by simp
  have un: "mset (map tileOf (filter (\<lambda>b. id_b b \<notin> set [''a'', ''d'']) (concat exGrid)))
            = mset [(''b'', 5, 0), (''c'', 7, 2), (''e'', 1, 2), (''f'', 2, 0), (''g'', 9, 2),
                    (''h'', 4, 5)]"
    by code_simp
  from C10_unselected_blocks_survive[of ?t "1 / 2" exDraw, OF okt sumt post]
  obtain t' g1 where t': "checkSumEffect ?t (1 / 2) exDraw = Some t'"
    "clearAndGravity (grid ?t) (selectedIds ?t) = Some g1"
    "mset (map tileOf (concat g1))
       = mset (map tileOf (filter (\<lambda>b. id_b b \<notin> set (selectedIds ?t)) (concat (grid ?t))))"
    "mode ?t = Time \<longrightarrow> grid t' = g1"
    by blast
  have gt: "Some (grid t') = clearAndGravity exGrid [''a'', ''d'']"
    using t'(2,4) unfolding selt by simp
  have mt: "mset (map tileOf (concat (grid t')))
           = mset [(''b'', 5, 0), (''c'', 7, 2), (''e'', 1, 2), (''f'', 2, 0), (''g'', 9, 2),
                   (''h'', 4, 5)]"
    using t'(3,4) un unfolding selt by simp
  have time: "\<exists>s'. checkSumEffect ?t (1 / 2) exDraw = Some s' \<and>
         Some (grid s') = clearAndGravity exGrid [''a'', ''d''] \<and>
         mset (map tileOf (concat (grid s')))
           = mset [(''b'', 5, 0), (''c'', 7, 2), (''e'', 1, 2), (''f'', 2, 0), (''g'', 9, 2),
                   (''h'', 4, 5)]"
    by (intro exI[of _ t'] conjI) (fact t'(1) gt mt)+
  show ?thesis
    by (intro conjI) (fact ok sum pos top b time classic)+
qed

section \<open>Adding a row and the end of the game\<close>

lemma top_row_case:
  "0 < length g \<Longrightarrow> (case g of [] \<Rightarrow> False | row0 # _ \<Rightarrow> row0 \<noteq> []) = (g ! 0 \<noteq> [])"
  by (cases g) simp_all

text \<open>
  C3. On a grid of \<open>GRID_ROWS\<close> rows \<open>addRow\<close> returns a state in which row \<open>r - 1\<close>
  holds the blocks of the old row \<open>r\<close>, for \<open>r\<close> from 1, with their \<open>row\<close> field set
  to \<open>r - 1\<close>; the bottom row is the row just created, one block in each column; the
  old top row has no part in the result, whatever it held; and the timer is reset.
  When the game is playing and the new top row is not empty, the game-over effect
  moves to \<open>Gameover\<close>. In that phase toggling, the timer and the game-over effect
  change nothing.
\<close>

theorem C3_addRow_shifts_up:
  assumes "length (grid s) = GRID_ROWS"
  shows "(\<exists>s'. addRow s rnd = Some s' \<and>
            length (grid s') = GRID_ROWS \<and>
            (\<forall>r\<in>{1..<GRID_ROWS}.
               grid s' ! (r - 1) = map (\<lambda>b. b\<lparr>row := r - 1\<rparr>) (grid s ! r)) \<and>
            grid s' ! (GRID_ROWS - 1) = createRow (GRID_ROWS - 1) rnd \<and>
            map col (grid s' ! (GRID_ROWS - 1)) = [0..<GRID_COLS] \<and>
            (\<forall>top. addRow (s\<lparr>grid := (grid s)[0 := top]\<rparr>) rnd = Some s') \<and>
            timeLeft s' = TIME_LIMIT \<and>
            (gameState s = Playing \<and> grid s' ! 0 \<noteq> [] \<longrightarrow>
               gameState (gameOverEffect s') = Gameover) \<and>
            (grid s' ! 0 = [] \<longrightarrow> gameOverEffect s' = s')) \<and>
         (gameState t = Gameover \<longrightarrow>
            toggleBlock t b = t \<and> tick t rnd' = Some t \<and> gameOverEffect t = t)"
proof -
  let ?g' = "map (\<lambda>r. if r < GRID_ROWS - 1 then map (\<lambda>b. b\<lparr>row := r\<rparr>) (grid s ! Suc r)
                       else createRow (GRID_ROWS - 1) rnd) [0..<GRID_ROWS]"
  let ?s' = "s\<lparr>grid := ?g', timeLeft := TIME_LIMIT\<rparr>"
  have add: "addRowGrid (grid s) rnd = Some ?g'"
    using assms by (rule addRowGrid_gridOk_eq)
  have 1: "addRow s rnd = Some ?s'" by (simp add: addRow_def add)
  have 2: "length (grid ?s') = GRID_ROWS" by simp
  have 3: "\<forall>r\<in>{1..<GRID_ROWS}.
             grid ?s' ! (r - 1) = map (\<lambda>b. b\<lparr>row := r - 1\<rparr>) (grid s ! r)"
  proof
    fix r assume "r \<in> {1..<GRID_ROWS}"
    then have "r - 1 < GRID_ROWS - 1" "Suc (r - 1) = r" "r - 1 < GRID_ROWS" by auto
    then show "grid ?s' ! (r - 1) = map (\<lambda>b. b\<lparr>row := r - 1\<rparr>) (grid s ! r)"
      by simp
  qed
  have 4: "grid ?s' ! (GRID_ROWS - 1) = createRow (GRID_ROWS - 1) rnd"
    using GRID_ROWS_pos by simp
  have 5: "map col (grid ?s' ! (GRID_ROWS - 1)) = [0..<GRID_COLS]"
    unfolding 4 by (rule map_col_createRow)
  have 6: "addRow (s\<lparr>grid := (grid s)[0 := top]\<rparr>) rnd = Some ?s'" for top
  proof -
    have "addRowGrid ((grid s)[0 := top]) rnd =
            Some (map (\<lambda>r. if r < GRID_ROWS - 1
                            then map (\<lambda>b. b\<lparr>row := r\<rparr>) ((grid s)[0 := top] ! Suc r)
                            else createRow (GRID_ROWS - 1) rnd) [0..<GRID_ROWS])"
      using assms by (intro addRowGrid_gridOk_eq) simp
    then show ?thesis by (simp add: addRow_def)
  qed
  have 7: "timeLeft ?s' = TIME_LIMIT" by simp
  have top: "(case grid ?s' of [] \<Rightarrow> False | row0 # _ \<Rightarrow> row0 \<noteq> []) = (grid ?s' ! 0 \<noteq> [])"
    using GRID_ROWS_pos by (intro top_row_case) simp
  have 8: "gameState s = Playing \<and> grid ?s' ! 0 \<noteq> [] \<longrightarrow>
             gameState (gameOverEffect ?s') = Gameover"
    unfolding gameOverEffect_def top by (simp add: gameOver_def)
  have 9: "grid ?s' ! 0 = [] \<longrightarrow> gameOverEffect ?s' = ?s'"
    unfolding gameOverEffect_def top by simp
  have 10: "gameState t = Gameover \<longrightarrow>
            toggleBlock t b = t \<and> tick t rnd' = Some t \<and> gameOverEffect t = t"
    by (simp add: toggleBlock_def tick_def gameOverEffect_def)
  show ?thesis
    apply (intro conjI exI[of _ ?s'])
    by (fact 1 2 3 4 5 7 8 9 10 | (rule allI, rule 6))+
qed

theorem C3_example:
  "length (grid (exState Time [])) = GRID_ROWS \<and>
   length (grid exTall) = GRID_ROWS \<and>
   gameState exTall = Playing \<and>
   map_option grid (addRow (exState Time []) exDraw)
     = Some [[], [], [], [], [],
             [\<lparr>id_b = ''a'', value_b = 3, row = 5, col = 0\<rparr>],
             [\<lparr>id_b = ''b'', value_b = 5, row = 6, col = 0\<rparr>,
              \<lparr>id_b = ''c'', value_b = 7, row = 6, col = 2\<rparr>],
             [\<lparr>id_b = ''d'', value_b = 7, row = 7, col = 0\<rparr>,
              \<lparr>id_b = ''e'', value_b = 1, row = 7, col = 2\<rparr>],
             [\<lparr>id_b = ''f'', value_b = 2, row = 8, col = 0\<rparr>,
              \<lparr>id_b = ''g'', value_b = 9, row = 8, col = 2\<rparr>,
              \<lparr>id_b = ''h'', value_b = 4, row = 8, col = 5\<rparr>],
             [\<lparr>id_b = ''n'', value_b = 5, row = 9, col = 0\<rparr>,
              \<lparr>id_b = ''nn'', value_b = 5, row = 9, col = 1\<rparr>,
              \<lparr>id_b = ''nnn'', value_b = 5, row = 9, col = 2\<rparr>,
              \<lparr>id_b = ''nnnn'', value_b = 5, row = 9, col = 3\<rparr>,
              \<lparr>id_b = ''nnnnn'', value_b = 5, row = 9, col = 4\<rparr>,
              \<lparr>id_b = ''nnnnnn'', value_b = 5, row = 9, col = 5\<rparr>]] \<and>
   (\<exists>s'. addRow (exState Time []) exDraw = Some s' \<and> grid s' ! 0 = [] \<and>
         gameOverEffect s' = s') \<and>
   (\<exists>s'. addRow exTall exDraw = Some s' \<and>
         grid s' ! 0 = [\<lparr>id_b = ''t'', value_b = 1, row = 0, col = 3\<rparr>] \<and>
         gameState (gameOverEffect s') = Gameover \<and>
         toggleBlock (gameOverEffect s') exCorner = gameOverEffect s' \<and>
         tick (gameOverEffect s') exDraw = Some (gameOverEffect s') \<and>
         gameOverEffect (gameOverEffect s') = gameOverEffect s')"
proof -
  have len: "length (grid (exState Time [])) = GRID_ROWS" "length (grid exTall) = GRID_ROWS"
    by (simp_all add: exState_def exTall_def exGrid_def GRID_ROWS_def)
  have play: "gameState exTall = Playing" by (simp add: exTall_def exState_def)
  have ev: "map_option grid (addRow (exState Time []) exDraw)
     = Some [[], [], [], [], [],
             [\<lparr>id_b = ''a'', value_b = 3, row = 5, col = 0\<rparr>],
             [\<lparr>id_b = ''b'', value_b = 5, row = 6, col = 0\<rparr>,
              \<lparr>id_b = ''c'', value_b = 7, row = 6, col = 2\<rparr>],
             [\<lparr>id_b = ''d'', value_b = 7, row = 7, col = 0\<rparr>,
              \<lparr>id_b = ''e'', value_b = 1, row = 7, col = 2\<rparr>],
             [\<lparr>id_b = ''f'', value_b = 2, row = 8, col = 0\<rparr>,
              \<lparr>id_b = ''g'', value_b = 9, row = 8, col = 2\<rparr>,
              \<lparr>id_b = ''h'', value_b = 4, row = 8, col = 5\<rparr>],
             [\<lparr>id_b = ''n'', value_b = 5, row = 9, col = 0\<rparr>,
              \<lparr>id_b = ''nn'', value_b = 5, row = 9, col = 1\<rparr>,
              \<lparr>id_b = ''nnn'', value_b = 5, row = 9, col = 2\<rparr>,
              \<lparr>id_b = ''nnnn'', value_b = 5, row = 9, col = 3\<rparr>,
              \<lparr>id_b = ''nnnnn'', value_b = 5, row = 9, col = 4\<rparr>,
              \<lparr>id_b = ''nnnnnn'', value_b = 5, row = 9, col = 5\<rparr>]]"
    by code_simp
  have one: "(1::nat) \<in> {1..<GRID_ROWS}" by (simp add: GRID_ROWS_def)
  have row1: "grid exTall ! 1 = [\<lparr>id_b = ''t'', value_b = 1, row = 1, col = 3\<rparr>]"
    by (simp add: exTall_def exGrid_def)
  from C3_addRow_shifts_up[OF len(2), of exDraw, THEN conjunct1]
  obtain s' where s': "addRow exTall exDraw = Some s'"
    "\<forall>r\<in>{1..<GRID_ROWS}. grid s' ! (r - 1) = map (\<lambda>b. b\<lparr>row := r - 1\<rparr>) (grid exTall ! r)"
    "gameState exTall = Playing \<and> grid s' ! 0 \<noteq> [] \<longrightarrow> gameState (gameOverEffect s') = Gameover"
    by blast
  have top: "grid s' ! 0 = [\<lparr>id_b = ''t'', value_b = 1, row = 0, col = 3\<rparr>]"
    using s'(2)[THEN bspec, OF one] row1 by simp
  then have over: "gameState (gameOverEffect s') = Gameover"
    using s'(3) play by simp
  have rest: "toggleBlock (gameOverEffect s') exCorner = gameOverEffect s'"
    "tick (gameOverEffect s') exDraw = Some (gameOverEffect s')"
    "gameOverEffect (gameOverEffect s') = gameOverEffect s'"
    using C3_addRow_shifts_up[OF len(2), of exDraw "gameOverEffect s'" exCorner exDraw,
            THEN conjunct2, THEN mp, OF over]
    by simp_all
  have tall: "\<exists>s'. addRow exTall exDraw = Some s' \<and>
         grid s' ! 0 = [\<lparr>id_b = ''t'', value_b = 1, row = 0, col = 3\<rparr>] \<and>
         gameState (gameOverEffect s') = Gameover \<and>
         toggleBlock (gameOverEffect s') exCorner = gameOverEffect s' \<and>
         tick (gameOverEffect s') exDraw = Some (gameOverEffect s') \<and>
         gameOverEffect (gameOverEffect s') = gameOverEffect s'"
    by (intro exI[of _ s'] conjI) (fact s'(1) top over rest)+
  have row1': "grid (exState Time []) ! 1 = []" by (simp add: exState_def exGrid_def)
  from C3_addRow_shifts_up[OF len(1), of exDraw, THEN conjunct1]
  obtain q where q: "addRow (exState Time []) exDraw = Some q"
    "\<forall>r\<in>{1..<GRID_ROWS}. grid q ! (r - 1)
        = map (\<lambda>b. b\<lparr>row := r - 1\<rparr>) (grid (exState Time []) ! r)"
    "grid q ! 0 = [] \<longrightarrow> gameOverEffect q = q"
    by blast
  have qtop: "grid q ! 0 = []" using q(2)[THEN bspec, OF one] row1' by simp
  then have qrest: "gameOverEffect q = q" using q(3) by simp
  have low: "\<exists>s'. addRow (exState Time []) exDraw = Some s' \<and> grid s' ! 0 = [] \<and>
         gameOverEffect s' = s'"
    by (intro exI[of _ q] conjI) (fact q(1) qtop qrest)+
  show ?thesis
    by (intro conjI) (fact len play ev low tall)+
qed

section \<open>The timer\<close>

text \<open>
  C6, as the code has it. In time mode, while playing and not paused, a tick takes one
  off the timer as long as the timer is above 1. The tick that finds the timer at 1
  (or below) applies \<open>addRow\<close> once and sets the timer to \<open>TIME_LIMIT = 10\<close>. A timer
  that is at least 1 stays at least 1: it never holds 0 (in every reachable state it
  lies between 1 and 10, \<open>reachable_timeLeft\<close>).
\<close>

theorem C6_tick_counts_down_to_one:
  assumes "gameState s = Playing" and "mode s = Time" and "\<not> isPaused s"
  shows "(1 < timeLeft s \<longrightarrow> tick s rnd = Some (s\<lparr>timeLeft := timeLeft s - 1\<rparr>)) \<and>
         (timeLeft s \<le> 1 \<and> length (grid s) = GRID_ROWS \<longrightarrow>
            (\<exists>g'. addRowGrid (grid s) rnd = Some g' \<and>
                  tick s rnd = Some (s\<lparr>grid := g', timeLeft := TIME_LIMIT\<rparr>))) \<and>
         (1 \<le> timeLeft s \<longrightarrow> (\<forall>s'. tick s rnd = Some s' \<longrightarrow> 1 \<le> timeLeft s')) \<and>
         TIME_LIMIT = 10"
proof (intro conjI impI allI)
  assume "1 < timeLeft s"
  then show "tick s rnd = Some (s\<lparr>timeLeft := timeLeft s - 1\<rparr>)"
    using assms by (simp add: tick_def)
next
  assume a: "timeLeft s \<le> 1 \<and> length (grid s) = GRID_ROWS"
  then obtain g' where g': "addRowGrid (grid s) rnd = Some g'"
    using addRowGrid_gridOk_eq by blast
  then have "tick s rnd = Some (s\<lparr>grid := g', timeLeft := TIME_LIMIT\<rparr>)"
    using assms a by (simp add: tick_def addRow_def)
  with g' show "\<exists>g'. addRowGrid (grid s) rnd = Some g' \<and>
                  tick s rnd = Some (s\<lparr>grid := g', timeLeft := TIME_LIMIT\<rparr>)"
    by blast
next
  fix s' assume "1 \<le> timeLeft s" "tick s rnd = Some s'"
  then show "1 \<le> timeLeft s'"
    using assms
    by (auto simp: tick_def addRow_def TIME_LIMIT_def split: if_splits option.splits)
next
  show "TIME_LIMIT = 10" by (simp add: TIME_LIMIT_def)
qed

theorem C6_example:
  "gameState (exState Time []) = Playing \<and> mode (exState Time []) = Time \<and>
   \<not> isPaused (exState Time []) \<and> timeLeft (exState Time []) = 4 \<and>
   tick (exState Time []) exDraw = Some ((exState Time [])\<lparr>timeLeft := 3\<rparr>) \<and>
   gameState exTall = Playing \<and> mode exTall = Time \<and> \<not> isPaused exTall \<and>
   timeLeft exTall = 1 \<and> length (grid exTall) = GRID_ROWS \<and>
   (\<exists>g'. addRowGrid (grid exTall) exDraw = Some g' \<and>
         tick exTall exDraw = Some (exTall\<lparr>grid := g', timeLeft := 10\<rparr>))"
proof -
  let ?s = "exState Time []"
  have s: "gameState ?s = Playing" "mode ?s = Time" "\<not> isPaused ?s" "timeLeft ?s = 4"
    by (simp_all add: exState_def)
  have t: "gameState exTall = Playing" "mode exTall = Time" "\<not> isPaused exTall"
    "timeLeft exTall = 1" "length (grid exTall) = GRID_ROWS"
    by (simp_all add: exTall_def exState_def exGrid_def GRID_ROWS_def)
  have 1: "tick ?s exDraw = Some (?s\<lparr>timeLeft := 3\<rparr>)"
    using C6_tick_counts_down_to_one[OF s(1-3), of exDraw] s(4) by simp
  have 2: "\<exists>g'. addRowGrid (grid exTall) exDraw = Some g' \<and>
         tick exTall exDraw = Some (exTall\<lparr>grid := g', timeLeft := 10\<rparr>)"
    using C6_tick_counts_down_to_one[OF t(1-3), of exDraw] t(4,5) by simp
  show ?thesis
    by (intro conjI) (fact s t 1 2)+
qed

text \<open>
  C6 as the specification words it: the timer goes down by one at every tick and the
  row is added once it has reached 0. At a timer of 1 the tick does not leave 0:
  it adds the row at once and leaves 10.
\<close>

theorem C6_tick_at_one:
  "gameState exTall = Playing \<and> mode exTall = Time \<and> \<not> isPaused exTall \<and>
   timeLeft exTall = 1 \<and>
   map_option timeLeft (tick exTall exDraw) = Some 10 \<and>
   map_option timeLeft (tick exTall exDraw) \<noteq> Some (timeLeft exTall - 1) \<and>
   map_option grid (tick exTall exDraw) = addRowGrid (grid exTall) exDraw \<and>
   map_option grid (tick exTall exDraw) \<noteq> Some (grid exTall)"
proof -
  have t: "gameState exTall = Playing" "mode exTall = Time" "\<not> isPaused exTall"
    "timeLeft exTall = 1" "length (grid exTall) = GRID_ROWS"
    by (simp_all add: exTall_def exState_def exGrid_def GRID_ROWS_def)
  obtain g' where g': "addRowGrid (grid exTall) exDraw = Some g'"
    using addRowGrid_gridOk_eq[OF t(5)] by blast
  have tk: "tick exTall exDraw = Some (exTall\<lparr>grid := g', timeLeft := TIME_LIMIT\<rparr>)"
    using t g' by (simp add: tick_def addRow_def)
  have r0: "g' ! 0 = map (\<lambda>b. b\<lparr>row := 0\<rparr>) (grid exTall ! 1)"
    using g' addRowGrid_gridOk_eq[OF t(5), of exDraw] GRID_ROWS_pos
    by (auto simp: GRID_ROWS_def)
  have "grid exTall ! 0 = []" "grid exTall ! 1 \<noteq> []"
    by (simp_all add: exTall_def exGrid_def)
  then have ne: "g' \<noteq> grid exTall" using r0 by auto
  show ?thesis
    using t tk g' ne by (simp add: TIME_LIMIT_def)
qed

section \<open>The level\<close>

text \<open>
  C4, as the code has it. The check \<open>score > level * 500\<close> of the sum effect reads the
  score of the render the effect belongs to, the score before the award. In the example
  the score goes from 490 to 510 and passes \<open>1 * 500\<close>, and the level stays 1; had the
  score been 501 before the match, the level would have gone up.
\<close>

theorem C4_level_check_reads_old_score:
  "score (exState Time [''a'', ''d'']) = 490 \<and> level (exState Time [''a'', ''d'']) = 1 \<and>
   currentSum (grid (exState Time [''a'', ''d''])) (selectedIds (exState Time [''a'', ''d'']))
     = target (exState Time [''a'', ''d'']) \<and>
   map_option score (checkSumEffect (exState Time [''a'', ''d'']) (1 / 2) exDraw) = Some 510 \<and>
   level (exState Time [''a'', ''d'']) * 500 < 510 \<and>
   map_option level (checkSumEffect (exState Time [''a'', ''d'']) (1 / 2) exDraw) = Some 1 \<and>
   map_option level
     (checkSumEffect ((exState Time [''a'', ''d''])\<lparr>score := 501\<rparr>) (1 / 2) exDraw) = Some 2"
proof -
  let ?s = "exState Time [''a'', ''d'']"
  have f: "score ?s = 490" "level ?s = 1" "target ?s = 10" "grid ?s = exGrid"
    "selectedIds ?s = [''a'', ''d'']"
    by (simp_all add: exState_def)
  have ok: "gridOk (grid ?s)" unfolding f by code_simp
  have sum: "currentSum (grid ?s) (selectedIds ?s) = target ?s" unfolding f by code_simp
  have pos: "0 < target ?s" unfolding f by simp
  from checkSumEffect_match[OF ok sum pos, of exDraw "1 / 2"]
  have 1: "map_option score (checkSumEffect ?s (1 / 2) exDraw) = Some 510"
    "map_option level (checkSumEffect ?s (1 / 2) exDraw) = Some 1"
    using f by auto
  have ok': "gridOk (grid (?s\<lparr>score := 501\<rparr>))"
    and sum': "currentSum (grid (?s\<lparr>score := 501\<rparr>)) (selectedIds (?s\<lparr>score := 501\<rparr>))
               = target (?s\<lparr>score := 501\<rparr>)"
    and pos': "0 < target (?s\<lparr>score := 501\<rparr>)"
    using ok sum pos by simp_all
  from checkSumEffect_match[OF ok' sum' pos', of exDraw "1 / 2"]
  have 2: "map_option level (checkSumEffect (?s\<lparr>score := 501\<rparr>) (1 / 2) exDraw) = Some 2"
    using f by auto
  show ?thesis
    using f(1,2) sum 1 2 by simp
qed

section \<open>Reachable states\<close>

lemma gameOverEffect_fields [simp]:
  "grid (gameOverEffect s) = grid s" "selectedIds (gameOverEffect s) = selectedIds s"
  "target (gameOverEffect s) = target s" "mode (gameOverEffect s) = mode s"
  "score (gameOverEffect s) = score s" "level (gameOverEffect s) = level s"
  by (simp_all add: gameOverEffect_def gameOver_def)

lemma gameOverEffect_Playing:
  "gameState (gameOverEffect s) = Playing \<Longrightarrow> topRowEmpty (grid s)"
  by (auto simp: gameOverEffect_def gameOver_def topRowEmpty_def split: if_splits list.splits)

lemma gameOverEffect_idem [simp]: "gameOverEffect (gameOverEffect s) = gameOverEffect s"
  by (simp add: gameOverEffect_def gameOver_def)

lemma currentSum_Nil [simp]: "currentSum g [] = 0"
  by (simp add: currentSum_sum_list)

lemma checkSumEffect_no_selection:
  assumes "selectedIds s = []"
  shows "checkSumEffect s u rnd = Some s"
proof -
  have "\<not> (currentSum (grid s) (selectedIds s) = target s \<and> target s > 0)"
    using assms by auto
  moreover have "s\<lparr>selectedIds := []\<rparr> = s" using assms by simp
  ultimately show ?thesis unfolding checkSumEffect_def by (simp only: if_False) simp
qed

lemma checkSumEffect_keeps:
  assumes "checkSumEffect s u rnd = Some s'" and "selectedIds s' \<noteq> []"
  shows "\<not> (currentSum (grid s) (selectedIds s) = target s \<and> target s > 0)"
    and "\<not> currentSum (grid s) (selectedIds s) > target s"
proof -
  show "\<not> (currentSum (grid s) (selectedIds s) = target s \<and> target s > 0)"
  proof
    assume c: "currentSum (grid s) (selectedIds s) = target s \<and> target s > 0"
    from assms(1) have "selectedIds s' = []"
      unfolding checkSumEffect_def using c
      by (auto simp: Let_def split: option.splits)
    with assms(2) show False by simp
  qed
  then show "\<not> currentSum (grid s) (selectedIds s) > target s"
    using assms by (auto simp: checkSumEffect_def split: if_splits)
qed

text \<open>
  After \<open>effects\<close> nothing is left to do: a further render would run both effects
  without any change.
\<close>

lemma effects_at_rest:
  assumes "effects s u rnd = Some s'"
  shows "gameOverEffect s' = s'" and "checkSumEffect s' u' rnd' = Some s'"
proof -
  from assms obtain s1 where s1: "checkSumEffect (gameOverEffect s) u rnd = Some s1"
    "s' = gameOverEffect s1"
    by (auto simp: effects_def split: option.splits)
  show "gameOverEffect s' = s'" by (simp add: s1(2))
  show "checkSumEffect s' u' rnd' = Some s'"
  proof (cases "selectedIds s1 = []")
    case True
    then show ?thesis by (simp add: s1(2) checkSumEffect_no_selection)
  next
    case False
    note k = checkSumEffect_keeps[OF s1(1) False]
    have s1_eq: "s1 = gameOverEffect s"
      using s1(1) k unfolding checkSumEffect_def by (simp split: if_splits)
    have c1: "(currentSum (grid s') (selectedIds s') = target s' \<and> target s' > 0) = False"
      and c2: "(currentSum (grid s') (selectedIds s') > target s') = False"
      using k by (simp_all add: s1(2) s1_eq)
    show ?thesis unfolding checkSumEffect_def c1 c2 by simp
  qed
qed

lemma effects_selection:
  assumes "effects s u rnd = Some s'" and "selectionInGrid s"
  shows "selectionInGrid s'" and "gameState s' = Playing \<longrightarrow> topRowEmpty (grid s')"
proof -
  from assms(1) obtain s1 where s1: "checkSumEffect (gameOverEffect s) u rnd = Some s1"
    "s' = gameOverEffect s1"
    by (auto simp: effects_def split: option.splits)
  from s1(1) have "selectionInGrid s1"
  proof (cases rule: checkSumEffect_cases)
    case (match g1 g2)
    then show ?thesis by (simp add: selectionInGrid_def)
  next
    case rest
    then show ?thesis using assms(2) by (auto simp: selectionInGrid_def)
  qed
  then show "selectionInGrid s'" by (simp add: s1(2) selectionInGrid_def)
  show "gameState s' = Playing \<longrightarrow> topRowEmpty (grid s')"
    using gameOverEffect_Playing[of s1] by (simp add: s1(2))
qed

text \<open>With an empty top row, \<open>addRow\<close> keeps every identifier of the grid.\<close>

lemma addRowGrid_keeps_ids:
  assumes top: "topRowEmpty g" and res: "addRowGrid g rnd = Some g'"
  shows "id_b ` set (concat g) \<subseteq> id_b ` set (concat g')"
proof
  fix i assume "i \<in> id_b ` set (concat g)"
  then obtain b where b: "b \<in> set (concat g)" "i = id_b b" by blast
  then obtain r where r: "r < length g" "b \<in> set (g ! r)"
    unfolding in_concat_nth by blast
  have len: "GRID_ROWS \<le> length g"
    using res addRowGrid_None[of g rnd] by (cases "length g < GRID_ROWS") simp_all
  have g': "g' = map (\<lambda>r. map (\<lambda>b. b\<lparr>row := r\<rparr>) (g ! Suc r)) [0..<GRID_ROWS - 1]
                 @ createRow (GRID_ROWS - 1) rnd # drop GRID_ROWS g"
    using res addRowGrid_Some[OF len, of rnd] by simp
  have "g ! 0 = []" using top r(1) by (cases g) (simp_all add: topRowEmpty_def)
  with r(2) have "r \<noteq> 0" by (cases r) auto
  then obtain k where k: "r = Suc k" by (cases r) auto
  show "i \<in> id_b ` set (concat g')"
  proof (cases "r < GRID_ROWS")
    case True
    then have "k < GRID_ROWS - 1" using k by simp
    then have "b\<lparr>row := k\<rparr> \<in> set (concat g')"
      using r(2) k unfolding g' by (auto intro!: bexI[of _ k])
    then show ?thesis using b(2) by (intro image_eqI[of _ _ "b\<lparr>row := k\<rparr>"]) simp_all
  next
    case False
    then obtain j where j: "r = GRID_ROWS + j" by (metis le_add_diff_inverse not_less)
    then have "g ! r = drop GRID_ROWS g ! j" "j < length (drop GRID_ROWS g)"
      using r(1) len by simp_all
    then have "b \<in> set (concat (drop GRID_ROWS g))"
      unfolding in_concat_nth using r(2) by (intro exI[of _ j]) simp
    then have "b \<in> set (concat g')" unfolding g' by simp
    then show ?thesis using b(2) by blast
  qed
qed

lemma handle_selection:
  assumes inv: "selectionInGrid s" "gameState s = Playing \<longrightarrow> topRowEmpty (grid s)"
    and en: "enabled s ev" and h: "handle s ev = Some s1"
  shows "selectionInGrid s1"
proof (cases ev)
  case (StartGame m rnds u)
  then show ?thesis using h by (auto simp: startGame_def selectionInGrid_def Let_def)
next
  case (ToggleBlock block)
  then have "block \<in> set (concat (grid s))" "s1 = toggleBlock s block" using en h by simp_all
  then show ?thesis using inv(1)
    unfolding selectionInGrid_def toggleBlock_def by auto
next
  case (Tick rnd)
  then have t: "tick s rnd = Some s1" using h by simp
  show ?thesis
  proof (cases "gameState s = Playing \<and> mode s = Time \<and> \<not> isPaused s \<and> timeLeft s \<le> 1")
    case True
    then obtain g' where g': "addRowGrid (grid s) rnd = Some g'" "grid s1 = g'"
      "selectedIds s1 = selectedIds s"
      using t by (auto simp: tick_def addRow_def split: option.splits)
    have "id_b ` set (concat (grid s)) \<subseteq> id_b ` set (concat g')"
      using inv(2) True g'(1) by (intro addRowGrid_keeps_ids) simp_all
    then show ?thesis using inv(1) g'(2,3) unfolding selectionInGrid_def by auto
  next
    case False
    then have "grid s1 = grid s" "selectedIds s1 = selectedIds s"
      using t by (auto simp: tick_def split: if_splits)
    then show ?thesis using inv(1) by (simp add: selectionInGrid_def)
  qed
next
  case (SetPaused p)
  then show ?thesis using h inv(1) by (auto simp: selectionInGrid_def)
next
  case ReturnToMenu
  then show ?thesis using h inv(1) by (auto simp: selectionInGrid_def)
qed

lemma reachable_selection:
  "reachable s \<Longrightarrow> selectionInGrid s \<and> (gameState s = Playing \<longrightarrow> topRowEmpty (grid s))"
proof (induction rule: reachable.induct)
  case reachable_init
  show ?case by (simp add: initialState_def selectionInGrid_def)
next
  case (reachable_step s ev u rnd s')
  obtain s1 where s1: "handle s ev = Some s1" "effects s1 u rnd = Some s'"
  proof (cases "handle s ev")
    case None
    then show ?thesis using reachable_step.hyps(3) by (simp add: step_def)
  next
    case (Some s1)
    then show ?thesis using reachable_step.hyps(3) that by (simp add: step_def)
  qed
  have inv: "selectionInGrid s" "gameState s = Playing \<longrightarrow> topRowEmpty (grid s)"
    using reachable_step.IH by blast+
  have "selectionInGrid s1"
    using inv reachable_step.hyps(2) s1(1) by (rule handle_selection)
  with s1(2) show ?case
    using effects_selection by blast
qed

text \<open>
  C7. In every reachable state each selected identifier is the identifier of a block
  of the grid. The sum effect empties the selection on a successful match (the sum
  equals the positive target, on a well-formed grid) and when the sum exceeds the
  target.
\<close>

theorem C7_selection_in_grid:
  "(reachable s \<longrightarrow> set (selectedIds s) \<subseteq> id_b ` set (concat (grid s))) \<and>
   (gridOk (grid t) \<and> currentSum (grid t) (selectedIds t) = target t \<and> 0 < target t \<longrightarrow>
      (\<exists>t'. checkSumEffect t u rnd = Some t' \<and> selectedIds t' = [])) \<and>
   (target t < currentSum (grid t) (selectedIds t) \<longrightarrow>
      (\<exists>t'. checkSumEffect t u rnd = Some t' \<and> selectedIds t' = []))"
proof (intro conjI impI)
  assume "reachable s"
  then show "set (selectedIds s) \<subseteq> id_b ` set (concat (grid s))"
    using reachable_selection[of s] by (simp add: selectionInGrid_def)
next
  assume a: "gridOk (grid t) \<and> currentSum (grid t) (selectedIds t) = target t \<and> 0 < target t"
  from checkSumEffect_match[of t rnd u] a obtain g2 where
    "checkSumEffect t u rnd =
       Some (t\<lparr>score := score t + target t * int (length (selectedIds t)),
               grid := g2,
               selectedIds := [],
               target := generateTarget (mode t) (level t) u,
               timeLeft := TIME_LIMIT,
               level := (if score t > level t * 500 then level t + 1 else level t)\<rparr>)"
    by blast
  then show "\<exists>t'. checkSumEffect t u rnd = Some t' \<and> selectedIds t' = []" by simp
next
  assume "target t < currentSum (grid t) (selectedIds t)"
  then show "\<exists>t'. checkSumEffect t u rnd = Some t' \<and> selectedIds t' = []"
    by (simp add: checkSumEffect_def)
qed


theorem C7_example:
  "reachable exPlay \<and>
   selectedIds exPlay = [''rrrrrrrrrrcccccc''] \<and>
   set (selectedIds exPlay) \<subseteq> id_b ` set (concat (grid exPlay)) \<and>
   gridOk (grid (exState Time [''a'', ''d''])) \<and>
   currentSum (grid (exState Time [''a'', ''d''])) (selectedIds (exState Time [''a'', ''d'']))
     = target (exState Time [''a'', ''d'']) \<and>
   (\<exists>t'. checkSumEffect (exState Time [''a'', ''d'']) (1 / 2) exDraw = Some t' \<and>
         selectedIds t' = []) \<and>
   target (exState Time [''c'', ''d'', ''e''])
     < currentSum (grid (exState Time [''c'', ''d'', ''e'']))
         (selectedIds (exState Time [''c'', ''d'', ''e''])) \<and>
   (\<exists>t'. checkSumEffect (exState Time [''c'', ''d'', ''e'']) (1 / 2) exDraw = Some t' \<and>
         selectedIds t' = [])"
proof -
  have e1: "effects exStart (1 / 2) exDraw = Some exStart" by code_simp
  have "step initialState (StartGame Time exDraws (1 / 2)) (1 / 2) exDraw = Some exStart"
    by (simp add: step_def exStart_def[symmetric] e1)
  then have r1: "reachable exStart"
    by (intro reachable_step[OF reachable_init]) simp_all
  have en: "enabled exStart (ToggleBlock exCorner)" by code_simp
  have e2: "effects exPlay (1 / 2) exDraw = Some exPlay" by code_simp
  have "step exStart (ToggleBlock exCorner) (1 / 2) exDraw = Some exPlay"
    by (simp add: step_def exPlay_def[symmetric] e2)
  with r1 en have r2: "reachable exPlay" by (rule reachable_step)
  have sel: "selectedIds exPlay = [''rrrrrrrrrrcccccc'']" by code_simp
  let ?t = "exState Time [''a'', ''d'']"
  let ?o = "exState Time [''c'', ''d'', ''e'']"
  have f: "grid (exState m xs) = exGrid" "selectedIds (exState m xs) = xs"
    "target (exState m xs) = 10" for m xs
    by (simp_all add: exState_def)
  have ok: "gridOk (grid ?t)" unfolding f by code_simp
  have sum: "currentSum (grid ?t) (selectedIds ?t) = target ?t" unfolding f by code_simp
  have pos: "0 < target ?t" unfolding f by simp
  have over: "target ?o < currentSum (grid ?o) (selectedIds ?o)" unfolding f by code_simp
  note C7t = C7_selection_in_grid[of exPlay ?t "1 / 2" exDraw]
  note C7o = C7_selection_in_grid[of exPlay ?o "1 / 2" exDraw]
  have 1: "set (selectedIds exPlay) \<subseteq> id_b ` set (concat (grid exPlay))"
    using C7t[THEN conjunct1, THEN mp, OF r2] .
  have 2: "\<exists>t'. checkSumEffect ?t (1 / 2) exDraw = Some t' \<and> selectedIds t' = []"
    using C7t[THEN conjunct2, THEN conjunct1, THEN mp, OF conjI[OF ok conjI[OF sum pos]]] .
  have 3: "\<exists>t'. checkSumEffect ?o (1 / 2) exDraw = Some t' \<and> selectedIds t' = []"
    using C7o[THEN conjunct2, THEN conjunct2, THEN mp, OF over] .
  show ?thesis
    by (intro conjI) (fact r2 sel 1 ok sum 2 over 3)+
qed

text \<open>
  The grid of a reachable state is the empty array of the first render or well formed,
  so the operations above do not fail on it.
\<close>

lemma effects_grid:
  assumes "effects s u rnd = Some s'" and "grid s = [] \<or> gridOk (grid s)"
  shows "grid s' = [] \<or> gridOk (grid s')"
proof -
  from assms(1) obtain s1 where s1: "checkSumEffect (gameOverEffect s) u rnd = Some s1"
    "s' = gameOverEffect s1"
    by (auto simp: effects_def split: option.splits)
  from s1(1) have "grid s1 = [] \<or> gridOk (grid s1)"
  proof (cases rule: checkSumEffect_cases)
    case (match g1 g2)
    then have g1: "g1 = map (gravityRow (grid s) (selectedIds s)) [0..<GRID_ROWS]"
      using clearAndGravity_SomeD[of "grid s" "selectedIds s" g1] by simp
    then have ok1: "gridOk g1" by (simp add: gridOk_gravity)
    show ?thesis
    proof (cases "mode s")
      case Classic
      then have "addRowGrid g1 rnd = Some g2" using match(3) by simp
      with ok1 have "gridOk g2" by (rule gridOk_addRowGrid)
      then show ?thesis using match(4) by simp
    next
      case Time
      then show ?thesis using match(2,4) ok1 by simp
    qed
  next
    case rest
    then show ?thesis using assms(2) by simp
  qed
  then show ?thesis by (simp add: s1(2))
qed

lemma handle_grid:
  assumes "handle s ev = Some s1" and "grid s = [] \<or> gridOk (grid s)"
  shows "grid s1 = [] \<or> gridOk (grid s1)"
proof (cases ev)
  case (StartGame m rnds u)
  then show ?thesis using assms(1) gridOk_startGame by auto
next
  case (ToggleBlock block)
  then show ?thesis using assms by (auto simp: toggleBlock_def)
next
  case (Tick rnd)
  then have t: "tick s rnd = Some s1" using assms(1) by simp
  show ?thesis
  proof (cases "gameState s = Playing \<and> mode s = Time \<and> \<not> isPaused s \<and> timeLeft s \<le> 1")
    case True
    then obtain g' where g': "addRowGrid (grid s) rnd = Some g'" "grid s1 = g'"
      using t by (auto simp: tick_def addRow_def split: option.splits)
    have "grid s \<noteq> []"
      using g'(1) addRowGrid_None[of "grid s" rnd] GRID_ROWS_pos by auto
    then have "gridOk (grid s)" using assms(2) by simp
    then show ?thesis using g' gridOk_addRowGrid by blast
  next
    case False
    then have "grid s1 = grid s" using t by (auto simp: tick_def split: if_splits)
    then show ?thesis using assms(2) by simp
  qed
next
  case (SetPaused p)
  then show ?thesis using assms by auto
next
  case ReturnToMenu
  then show ?thesis using assms by auto
qed

lemma reachable_grid: "reachable s \<Longrightarrow> grid s = [] \<or> gridOk (grid s)"
proof (induction rule: reachable.induct)
  case reachable_init
  show ?case by (simp add: initialState_def)
next
  case (reachable_step s ev u rnd s')
  obtain s1 where s1: "handle s ev = Some s1" "effects s1 u rnd = Some s'"
  proof (cases "handle s ev")
    case None
    then show ?thesis using reachable_step.hyps(3) by (simp add: step_def)
  next
    case (Some s1)
    then show ?thesis using reachable_step.hyps(3) that by (simp add: step_def)
  qed
  have "grid s1 = [] \<or> gridOk (grid s1)"
    using s1(1) reachable_step.IH by (rule handle_grid)
  with s1(2) show ?case by (rule effects_grid)
qed

lemma reachable_distinct_selection: "reachable s \<Longrightarrow> distinct (selectedIds s)"
proof (induction rule: reachable.induct)
  case reachable_init
  show ?case by (simp add: initialState_def)
next
  case (reachable_step s ev u rnd s')
  obtain s1 where s1: "handle s ev = Some s1" "effects s1 u rnd = Some s'"
  proof (cases "handle s ev")
    case None
    then show ?thesis using reachable_step.hyps(3) by (simp add: step_def)
  next
    case (Some s1)
    then show ?thesis using reachable_step.hyps(3) that by (simp add: step_def)
  qed
  have d1: "distinct (selectedIds s1)"
  proof (cases ev)
    case (StartGame m rnds u)
    then show ?thesis using s1(1) by (auto simp: startGame_def Let_def)
  next
    case (ToggleBlock block)
    then show ?thesis using s1(1) reachable_step.IH by (auto simp: toggleBlock_def)
  next
    case (Tick rnd)
    then show ?thesis using s1(1) reachable_step.IH
      by (auto simp: tick_def addRow_def split: if_splits option.splits)
  next
    case (SetPaused p)
    then show ?thesis using s1(1) reachable_step.IH by auto
  next
    case ReturnToMenu
    then show ?thesis using s1(1) reachable_step.IH by auto
  qed
  from s1(2) obtain s2 where s2: "checkSumEffect (gameOverEffect s1) u rnd = Some s2"
    "s' = gameOverEffect s2"
    by (auto simp: effects_def split: option.splits)
  from s2(1) have "distinct (selectedIds s2)"
  proof (cases rule: checkSumEffect_cases)
    case (match g1 g2)
    then show ?thesis by simp
  next
    case rest
    then show ?thesis using d1 by auto
  qed
  then show ?case by (simp add: s2(2))
qed


lemma reachable_match_gridOk:
  assumes "reachable s" and "currentSum (grid s) (selectedIds s) = target s" and "0 < target s"
  shows "gridOk (grid s)"
proof -
  have "grid s \<noteq> []"
  proof
    assume "grid s = []"
    then have "currentSum (grid s) (selectedIds s) = 0" by (simp add: currentSum_sum_list)
    with assms(2,3) show False by simp
  qed
  with reachable_grid[OF assms(1)] show ?thesis by simp
qed


text \<open>The timer of a reachable state lies between 1 and \<open>TIME_LIMIT\<close>.\<close>

lemma checkSumEffect_timeLeft:
  "checkSumEffect s u rnd = Some s' \<Longrightarrow> timeLeft s' = timeLeft s \<or> timeLeft s' = TIME_LIMIT"
  by (auto simp: checkSumEffect_def Let_def split: if_splits option.splits)

lemma gameOverEffect_timeLeft [simp]: "timeLeft (gameOverEffect s) = timeLeft s"
  by (simp add: gameOverEffect_def gameOver_def)

lemma reachable_timeLeft: "reachable s \<Longrightarrow> 1 \<le> timeLeft s \<and> timeLeft s \<le> TIME_LIMIT"
proof (induction rule: reachable.induct)
  case reachable_init
  show ?case by (simp add: initialState_def TIME_LIMIT_def)
next
  case (reachable_step s ev u rnd s')
  obtain s1 where s1: "handle s ev = Some s1" "effects s1 u rnd = Some s'"
  proof (cases "handle s ev")
    case None
    then show ?thesis using reachable_step.hyps(3) by (simp add: step_def)
  next
    case (Some s1)
    then show ?thesis using reachable_step.hyps(3) that by (simp add: step_def)
  qed
  have t1: "1 \<le> timeLeft s1 \<and> timeLeft s1 \<le> TIME_LIMIT"
  proof (cases ev)
    case (StartGame m rnds u)
    then show ?thesis using s1(1) by (auto simp: startGame_def Let_def TIME_LIMIT_def)
  next
    case (ToggleBlock block)
    then show ?thesis using s1(1) reachable_step.IH by (auto simp: toggleBlock_def)
  next
    case (Tick rnd)
    then show ?thesis using s1(1) reachable_step.IH
      by (auto simp: tick_def addRow_def TIME_LIMIT_def split: if_splits option.splits)
  next
    case (SetPaused p)
    then show ?thesis using s1(1) reachable_step.IH by auto
  next
    case ReturnToMenu
    then show ?thesis using s1(1) reachable_step.IH by auto
  qed
  from s1(2) obtain s2 where s2: "checkSumEffect (gameOverEffect s1) u rnd = Some s2"
    "s' = gameOverEffect s2"
    by (auto simp: effects_def split: option.splits)
  have "timeLeft s2 = timeLeft s1 \<or> timeLeft s2 = TIME_LIMIT"
    using checkSumEffect_timeLeft[OF s2(1)] by simp
  then show ?case using t1 by (auto simp: s2(2) TIME_LIMIT_def)
qed

end
